theory Spec2Isabelle
  imports Complex_Main "HOL-Library.Extended_Nat" "HOL-Library.List_Lexorder" "HOL-Library.Multiset"
begin

section \<open>Data model\<close>

text \<open>
  The mesh of \<^verbatim>\<open>Polyhedron.jsx\<close>: vertices are 3D points, a face is the ordered list of
  its vertex indices, an edge is a two-element array of vertex indices.  Numbers are
  JavaScript doubles in the source; the model uses \<^typ>\<open>real\<close> for coordinates.
\<close>

type_synonym VIndex = nat
type_synonym FIndex = nat
type_synonym Vertex = "real \<times> real \<times> real"
type_synonym Face = "VIndex list"
type_synonym Edge = "VIndex \<times> VIndex"

text \<open>
  A \<^verbatim>\<open>FaceObj\<close> is created as \<^verbatim>\<open>new FaceObj(this, fIndex)\<close>: a handle on one face of
  its polyhedron.  The model keeps the index and passes the owning polyhedron explicitly.
\<close>

type_synonym FaceObj = FIndex

text \<open>Exceptions of the source: the runtime's \<^verbatim>\<open>TypeError\<close> (a property read or a method
  call on \<^verbatim>\<open>undefined\<close>) and the explicit \<^verbatim>\<open>throw new Error(message)\<close>.\<close>

datatype error = TypeError | Error string

text \<open>The argument of the constructor, and the value of \<^verbatim>\<open>toJSON\<close>
  (interface \<^verbatim>\<open>BasePolyhedron\<close>): \<^verbatim>\<open>edges\<close> and \<^verbatim>\<open>name\<close> are optional.\<close>

record BasePolyhedron =
  bp_vertices :: "Vertex list"
  bp_faces :: "Face list"
  bp_edges :: "Edge list option"
  bp_name :: "string option"

text \<open>A JavaScript number as the vector arithmetic sees it.  Coordinates are reals in the
  model; \<^verbatim>\<open>NaN\<close> is kept apart, because arithmetic on \<^verbatim>\<open>undefined\<close> produces it without
  throwing and every later operation passes it on.\<close>

datatype number = Number real | NaN

record Vec3D =
  vx :: number
  vy :: number
  vz :: number

text \<open>
  An instance of the class.  Besides \<^verbatim>\<open>vertices\<close> and \<^verbatim>\<open>faces\<close> it owns its caches:
  the field \<^verbatim>\<open>_edges\<close>, the field \<^verbatim>\<open>_vertexVectors\<close>, and the caches of the
  \<^verbatim>\<open>_.memoize\<close>d instance properties \<^verbatim>\<open>getFace\<close> (keyed by face index; the list holds the
  keys computed so far), \<^verbatim>\<open>vertexGraph\<close>, \<^verbatim>\<open>vertexToFaceGraph\<close>, \<^verbatim>\<open>faceGraph\<close> and
  \<^verbatim>\<open>directedEdgeToFaceGraph\<close>.  \<^term>\<open>None\<close> is a cache that has not been computed.
\<close>

record Polyhedron =
  vertices :: "Vertex list"
  faces :: "Face list"
  edges_cache :: "Edge list option"
  vertexVectors_cache :: "Vec3D list option"
  getFace_cache :: "FIndex list"
  vertexGraph_cache :: "(VIndex \<rightharpoonup> VIndex list) option"
  vertexToFaceGraph_cache :: "FaceObj list list option"
  faceGraph_cache :: "(FIndex \<rightharpoonup> FaceObj list) option"
  directedEdgeToFaceGraph_cache :: "(VIndex \<rightharpoonup> (VIndex \<rightharpoonup> FaceObj)) option"

text \<open>The constructor stores \<^verbatim>\<open>vertices\<close> and \<^verbatim>\<open>faces\<close>, stores \<^verbatim>\<open>edges\<close> in \<^verbatim>\<open>_edges\<close>
  when it is given (an array is truthy, also the empty one), and ignores \<^verbatim>\<open>name\<close>.  The
  memoized properties are initialised per instance, with empty caches.\<close>

definition new_Polyhedron :: "BasePolyhedron \<Rightarrow> Polyhedron" where
  "new_Polyhedron b =
     \<lparr> vertices = bp_vertices b, faces = bp_faces b, edges_cache = bp_edges b,
       vertexVectors_cache = None, getFace_cache = [], vertexGraph_cache = None,
       vertexToFaceGraph_cache = None, faceGraph_cache = None,
       directedEdgeToFaceGraph_cache = None \<rparr>"

definition Polyhedron_of :: "Vertex list \<Rightarrow> Face list \<Rightarrow> Polyhedron" where
  "Polyhedron_of vs fs =
     new_Polyhedron \<lparr> bp_vertices = vs, bp_faces = fs, bp_edges = None, bp_name = None \<rparr>"

definition numVertices :: "Polyhedron \<Rightarrow> nat" where
  "numVertices p = length (vertices p)"

definition numFaces :: "Polyhedron \<Rightarrow> nat" where
  "numFaces p = length (faces p)"

definition vIndices :: "Polyhedron \<Rightarrow> VIndex list" where
  "vIndices p = [0 ..< numVertices p]"

definition fIndices :: "Polyhedron \<Rightarrow> FIndex list" where
  "fIndices p = [0 ..< numFaces p]"

definition getFaces :: "Polyhedron \<Rightarrow> FaceObj list" where
  "getFaces p = map (\<lambda>fIndex. fIndex) (fIndices p)"


section \<open>Face view\<close>

text \<open>
  \<^verbatim>\<open>Face.js\<close> and \<^verbatim>\<open>solidUtils.js\<close> are not among the sources; the functions of this
  section are the ones the class calls on a \<^verbatim>\<open>FaceObj\<close>.
\<close>

text \<open>Modelled from the spec: \<^verbatim>\<open>getCyclic(array, index)\<close> of \<^verbatim>\<open>solidUtils\<close> is missing; the
  element at \<^verbatim>\<open>index\<close> modulo the length of the array (the wrap-around of a cyclic face).
  It is only called on a non-empty array.\<close>

definition getCyclic :: "'a list \<Rightarrow> int \<Rightarrow> 'a" where
  "getCyclic array index = array ! nat (index mod int (length array))"

text \<open>Modelled from the spec: \<^verbatim>\<open>FaceObj.vIndices()\<close> is missing; the ordered vertex list of
  the face.\<close>

definition face_vIndices :: "Polyhedron \<Rightarrow> FaceObj \<Rightarrow> VIndex list" where
  "face_vIndices p f = faces p ! f"

text \<open>Modelled from the spec: \<^verbatim>\<open>FaceObj.numSides()\<close> is missing; side count = sequence
  length.\<close>

definition numSides :: "Polyhedron \<Rightarrow> FaceObj \<Rightarrow> nat" where
  "numSides p f = length (face_vIndices p f)"

text \<open>Modelled from the spec: \<^verbatim>\<open>FaceObj.directedEdges()\<close> is missing; the consecutive pairs
  of the face, including the wrap-around pair.\<close>

definition directedEdges :: "Polyhedron \<Rightarrow> FaceObj \<Rightarrow> Edge list" where
  "directedEdges p f =
     (let vs = face_vIndices p f
      in map (\<lambda>i. (vs ! i, getCyclic vs (int i + 1))) [0 ..< length vs])"

text \<open>Modelled from the spec: \<^verbatim>\<open>FaceObj.getEdges()\<close> is missing; an edge is an unordered
  pair of vertex indices derived from the consecutive (and wrap-around) pairs of a face, so
  each pair is stored smaller index first.\<close>

definition getEdges :: "Polyhedron \<Rightarrow> FaceObj \<Rightarrow> Edge list" where
  "getEdges p f = map (\<lambda>(v1, v2). (min v1 v2, max v1 v2)) (directedEdges p f)"

text \<open>JavaScript's \<^verbatim>\<open>Array.prototype.indexOf\<close>: the first position, or \<open>-1\<close>.\<close>

fun indexOf :: "'a list \<Rightarrow> 'a \<Rightarrow> int" where
  "indexOf [] v = -1"
| "indexOf (x # xs) v = (if x = v then 0 else (let i = indexOf xs v in if i < 0 then -1 else i + 1))"

text \<open>Modelled from the spec: \<^verbatim>\<open>FaceObj.nextVertex\<close> and \<^verbatim>\<open>FaceObj.prevVertex\<close> are
  missing; the next and previous vertex relative to a query vertex within the face's cyclic
  order.\<close>

definition nextVertex :: "Polyhedron \<Rightarrow> FaceObj \<Rightarrow> VIndex \<Rightarrow> VIndex" where
  "nextVertex p f vIndex =
     (let vs = face_vIndices p f in getCyclic vs (indexOf vs vIndex + 1))"

definition prevVertex :: "Polyhedron \<Rightarrow> FaceObj \<Rightarrow> VIndex \<Rightarrow> VIndex" where
  "prevVertex p f vIndex =
     (let vs = face_vIndices p f in getCyclic vs (indexOf vs vIndex - 1))"

section \<open>Edges and the snapshot\<close>

text \<open>\<^verbatim>\<open>_.uniqWith(array, _.isEqual)\<close>: the first occurrence of every value, in order.\<close>

fun uniq :: "'a list \<Rightarrow> 'a list" where
  "uniq [] = []"
| "uniq (x # xs) = x # uniq (filter (\<lambda>y. y \<noteq> x) xs)"

definition getAllEdges :: "Polyhedron \<Rightarrow> Edge list" where
  "getAllEdges p = uniq (concat (map (getEdges p) (getFaces p)))"

text \<open>The getter \<^verbatim>\<open>edges\<close>: the value it returns, and the instance afterwards.  When
  \<^verbatim>\<open>_edges\<close> is unset it is computed with \<^verbatim>\<open>getAllEdges\<close>, which goes through
  \<^verbatim>\<open>getFaces\<close> and so fills the \<^verbatim>\<open>getFace\<close> cache, and is stored in the instance.\<close>

definition edges :: "Polyhedron \<Rightarrow> Edge list" where
  "edges p = (case edges_cache p of Some es \<Rightarrow> es | None \<Rightarrow> getAllEdges p)"

definition memo_key :: "FIndex \<Rightarrow> FIndex list \<Rightarrow> FIndex list" where
  "memo_key k cache = (if k \<in> set cache then cache else cache @ [k])"

definition getFaces_st :: "Polyhedron \<Rightarrow> FaceObj list \<times> Polyhedron" where
  "getFaces_st p = (getFaces p, p\<lparr> getFace_cache := fold memo_key (fIndices p) (getFace_cache p) \<rparr>)"

definition edges_st :: "Polyhedron \<Rightarrow> Edge list \<times> Polyhedron" where
  "edges_st p =
     (case edges_cache p of
        Some es \<Rightarrow> (es, p)
      | None \<Rightarrow> (let p1 = snd (getFaces_st p); es = getAllEdges p
                 in (es, p1\<lparr> edges_cache := Some es \<rparr>)))"

text \<open>\<^verbatim>\<open>toJSON\<close> is \<^verbatim>\<open>_.pick(this, ['vertices', 'faces', 'edges', 'name'])\<close>.  \<^verbatim>\<open>_.pick\<close>
  reads each path and keeps it when it is \<^verbatim>\<open>in\<close> the object: \<^verbatim>\<open>edges\<close> is the getter of the
  prototype, so it is read (and computed) and kept; \<^verbatim>\<open>name\<close> is never assigned by the
  constructor, so it is left out.\<close>

definition toJSON_st :: "Polyhedron \<Rightarrow> BasePolyhedron \<times> Polyhedron" where
  "toJSON_st p =
     (let (es, p') = edges_st p
      in (\<lparr> bp_vertices = vertices p', bp_faces = faces p', bp_edges = Some es, bp_name = None \<rparr>, p'))"

definition toJSON :: "Polyhedron \<Rightarrow> BasePolyhedron" where
  "toJSON p = fst (toJSON_st p)"

section \<open>Structural transforms\<close>

text \<open>Each transform returns the new instance and the receiver as the call leaves it.
  \<^verbatim>\<open>new Polyhedron({ ...this.toJSON(), vertices })\<close> spreads the snapshot and overrides one
  field.\<close>

definition withVertices_st :: "Polyhedron \<Rightarrow> Vertex list \<Rightarrow> Polyhedron \<times> Polyhedron" where
  "withVertices_st p vs = (let (j, p') = toJSON_st p in (new_Polyhedron (j\<lparr> bp_vertices := vs \<rparr>), p'))"

definition withFaces_st :: "Polyhedron \<Rightarrow> Face list \<Rightarrow> Polyhedron \<times> Polyhedron" where
  "withFaces_st p fs = (let (j, p') = toJSON_st p in (new_Polyhedron (j\<lparr> bp_faces := fs \<rparr>), p'))"

definition addVertices_st :: "Polyhedron \<Rightarrow> Vertex list \<Rightarrow> Polyhedron \<times> Polyhedron" where
  "addVertices_st p vs = withVertices_st p (vertices p @ vs)"

definition addFaces_st :: "Polyhedron \<Rightarrow> Face list \<Rightarrow> Polyhedron \<times> Polyhedron" where
  "addFaces_st p fs = withFaces_st p (faces p @ fs)"

text \<open>\<^verbatim>\<open>addPolyhedron\<close> only reads \<^verbatim>\<open>other\<close>; the intermediate instance made by
  \<^verbatim>\<open>addVertices\<close> is dropped.\<close>

definition addPolyhedron_st :: "Polyhedron \<Rightarrow> Polyhedron \<Rightarrow> Polyhedron \<times> Polyhedron" where
  "addPolyhedron_st p other =
     (let (p1, p') = addVertices_st p (vertices other);
          fs = map (\<lambda>vIndices. map (\<lambda>vIndex. vIndex + numVertices p') vIndices) (faces other)
      in (fst (addFaces_st p1 fs), p'))"

text \<open>\<^verbatim>\<open>array.splice(index, 1)\<close>: removes the element at \<^verbatim>\<open>index\<close>, nothing when the index
  is past the end.\<close>

definition splice1 :: "nat \<Rightarrow> 'a list \<Rightarrow> 'a list" where
  "splice1 index array = take index array @ drop (Suc index) array"

text \<open>\<^verbatim>\<open>basePullAt(array, indexes)\<close> of lodash walks the sorted indexes from the last to the
  first and splices every index that differs from the one before (\<^verbatim>\<open>previous\<close>); the list
  given to the loop is the reversed index list.\<close>

fun basePullAt_loop :: "'a list \<Rightarrow> nat list \<Rightarrow> nat option \<Rightarrow> 'a list" where
  "basePullAt_loop array [] previous = array"
| "basePullAt_loop array (index # rest) previous =
     (if previous \<noteq> Some index
      then basePullAt_loop (splice1 index array) rest (Some index)
      else basePullAt_loop array rest previous)"

definition basePullAt :: "'a list \<Rightarrow> nat list \<Rightarrow> 'a list" where
  "basePullAt array indexes = basePullAt_loop array (rev indexes) None"

text \<open>\<^verbatim>\<open>_.pullAt(array, indexes)\<close> sorts the indexes ascending and calls \<^verbatim>\<open>basePullAt\<close>.\<close>

definition pullAt :: "'a list \<Rightarrow> nat list \<Rightarrow> 'a list" where
  "pullAt array indexes = basePullAt array (sort indexes)"

definition removeFace_st :: "Polyhedron \<Rightarrow> FaceObj \<Rightarrow> Polyhedron \<times> Polyhedron" where
  "removeFace_st p face = withFaces_st p (pullAt (faces p) [face])"

definition removeFaces_st :: "Polyhedron \<Rightarrow> FaceObj list \<Rightarrow> Polyhedron \<times> Polyhedron" where
  "removeFaces_st p faceObjs = withFaces_st p (pullAt (faces p) (map (\<lambda>face. face) faceObjs))"

text \<open>\<^verbatim>\<open>Array.prototype.map\<close> passes the element and its index to the iteratee.\<close>

definition mapVertices_st ::
  "Polyhedron \<Rightarrow> (Vertex \<Rightarrow> VIndex \<Rightarrow> Vertex) \<Rightarrow> Polyhedron \<times> Polyhedron" where
  "mapVertices_st p iteratee =
     withVertices_st p (map (\<lambda>i. iteratee (vertices p ! i) i) [0 ..< length (vertices p)])"

definition mapFaces_st :: "Polyhedron \<Rightarrow> (FaceObj \<Rightarrow> Face) \<Rightarrow> Polyhedron \<times> Polyhedron" where
  "mapFaces_st p iteratee =
     (let (fs, p1) = getFaces_st p in withFaces_st p1 (map iteratee fs))"


section \<open>Vectors\<close>

text \<open>\<^verbatim>\<open>Vec3D\<close> comes from the library \<^verbatim>\<open>toxiclibsjs\<close>; the operations the class uses are
  written over \<^typ>\<open>number\<close>.  An arithmetic operator with a \<^verbatim>\<open>NaN\<close> operand gives \<^verbatim>\<open>NaN\<close>.\<close>

fun arith :: "(real \<Rightarrow> real \<Rightarrow> real) \<Rightarrow> number \<Rightarrow> number \<Rightarrow> number" where
  "arith f (Number a) (Number b) = Number (f a b)"
| "arith f _ _ = NaN"

definition vec :: "Vertex \<Rightarrow> Vec3D" where
  "vec p = (case p of (a, b, c) \<Rightarrow> \<lparr> vx = Number a, vy = Number b, vz = Number c \<rparr>)"

text \<open>\<^verbatim>\<open>a.add(b)\<close>.  When \<^verbatim>\<open>b\<close> is \<^verbatim>\<open>undefined\<close> the library does not throw: it adds
  \<^verbatim>\<open>undefined\<close> to each coordinate, which is \<^verbatim>\<open>NaN\<close>.\<close>

definition vadd :: "Vec3D \<Rightarrow> Vec3D option \<Rightarrow> Vec3D" where
  "vadd a b =
     (case b of
        Some b \<Rightarrow> \<lparr> vx = arith (+) (vx a) (vx b), vy = arith (+) (vy a) (vy b), vz = arith (+) (vz a) (vz b) \<rparr>
      | None \<Rightarrow> \<lparr> vx = arith (+) (vx a) NaN, vy = arith (+) (vy a) NaN, vz = arith (+) (vz a) NaN \<rparr>)"

definition vsub :: "Vec3D \<Rightarrow> Vec3D \<Rightarrow> Vec3D" where
  "vsub a b = \<lparr> vx = arith (-) (vx a) (vx b), vy = arith (-) (vy a) (vy b), vz = arith (-) (vz a) (vz b) \<rparr>"

definition vscale :: "Vec3D \<Rightarrow> real \<Rightarrow> Vec3D" where
  "vscale a s =
     \<lparr> vx = arith (*) (vx a) (Number s), vy = arith (*) (vy a) (Number s), vz = arith (*) (vz a) (Number s) \<rparr>"

definition vdot :: "Vec3D \<Rightarrow> Vec3D \<Rightarrow> number" where
  "vdot a b =
     arith (+) (arith (+) (arith (*) (vx a) (vx b)) (arith (*) (vy a) (vy b))) (arith (*) (vz a) (vz b))"

text \<open>\<^verbatim>\<open>getNormalized\<close> scales by the inverse magnitude when \<^verbatim>\<open>mag > 0\<close>; the comparison is
  false for \<^verbatim>\<open>NaN\<close>.\<close>

definition getNormalized :: "Vec3D \<Rightarrow> Vec3D" where
  "getNormalized a =
     (case vdot a a of
        Number d \<Rightarrow> (let mag = sqrt d in if mag > 0 then vscale a (1 / mag) else a)
      | NaN \<Rightarrow> a)"

text \<open>\<^verbatim>\<open>a.angleBetween(b, true)\<close>: \<^verbatim>\<open>Math.acos\<close> of the dot product of the normalised
  vectors, \<^verbatim>\<open>NaN\<close> outside \<open>[-1, 1]\<close> and on \<^verbatim>\<open>NaN\<close>.\<close>

definition angleBetween :: "Vec3D \<Rightarrow> Vec3D \<Rightarrow> number" where
  "angleBetween a b =
     (case vdot (getNormalized a) (getNormalized b) of
        Number theta \<Rightarrow> (if - 1 \<le> theta \<and> theta \<le> 1 then Number (arccos theta) else NaN)
      | NaN \<Rightarrow> NaN)"

text \<open>\<^verbatim>\<open>getMidpoint(v1, v2) = v1.add(v2).scale(0.5)\<close>: the method call on an \<^verbatim>\<open>undefined\<close>
  \<^verbatim>\<open>v1\<close> throws a \<^verbatim>\<open>TypeError\<close>; an \<^verbatim>\<open>undefined\<close> \<^verbatim>\<open>v2\<close> gives a vector of \<^verbatim>\<open>NaN\<close>.\<close>

definition getMidpoint :: "Vec3D option \<Rightarrow> Vec3D option \<Rightarrow> error + Vec3D" where
  "getMidpoint v1 v2 =
     (case v1 of
        None \<Rightarrow> Inl TypeError
      | Some a \<Rightarrow> Inr (vscale (vadd a v2) 0.5))"

text \<open>\<^verbatim>\<open>vectors.reduce((v1, v2) => v1.add(v2)).scale(1 / vectors.length)\<close>.  The \<^verbatim>\<open>reduce\<close>
  has no initial value: on an empty array it throws a \<^verbatim>\<open>TypeError\<close>.  The first element is
  the receiver of the first \<^verbatim>\<open>add\<close> (or of \<^verbatim>\<open>scale\<close>, when it is the only one), so an
  \<^verbatim>\<open>undefined\<close> first element throws; a later \<^verbatim>\<open>undefined\<close> element is an argument of \<^verbatim>\<open>add\<close>.\<close>

definition getCentroid :: "Vec3D option list \<Rightarrow> error + Vec3D" where
  "getCentroid vectors =
     (case vectors of
        [] \<Rightarrow> Inl TypeError
      | v # vs \<Rightarrow>
          (case v of
             None \<Rightarrow> Inl TypeError
           | Some a \<Rightarrow> Inr (vscale (foldl vadd a vs) (1 / real (length vectors)))))"

definition PRECISION_DIGITS :: nat where
  "PRECISION_DIGITS = 3"

definition PRECISION :: real where
  "PRECISION = 1 / 10 ^ PRECISION_DIGITS"

text \<open>\<^verbatim>\<open>Plane\<close> and \<^verbatim>\<open>Triangle3D\<close> are classes of the vector library: the plane built from
  a triangle (\<open>mkPlane a b c\<close> for \<^verbatim>\<open>new Plane(new Triangle3D(a, b, c))\<close>) and
  \<^verbatim>\<open>plane.getDistanceToPoint\<close> are parameters of the model.\<close>

definition getPlane :: "('v \<Rightarrow> 'v \<Rightarrow> 'v \<Rightarrow> 'pl) \<Rightarrow> 'v list \<Rightarrow> error + 'pl" where
  "getPlane mkPlane points =
     (if length points < 3 then Inl (Error ''Need at least three points for a plane'')
      else (let triang = take 3 points in Inr (mkPlane (triang ! 0) (triang ! 1) (triang ! 2))))"

definition isPlanar ::
  "('v \<Rightarrow> 'v \<Rightarrow> 'v \<Rightarrow> 'pl) \<Rightarrow> ('pl \<Rightarrow> 'v \<Rightarrow> real) \<Rightarrow> 'v list \<Rightarrow> error + bool" where
  "isPlanar mkPlane getDistanceToPoint points =
     (case getPlane mkPlane points of
        Inl e \<Rightarrow> Inl e
      | Inr plane \<Rightarrow> Inr (list_all (\<lambda>v. getDistanceToPoint plane v < PRECISION) points))"

section \<open>Derived graphs\<close>

text \<open>\<^verbatim>\<open>vertexVectors()\<close> maps \<^verbatim>\<open>vec\<close> over the vertices (cached in \<^verbatim>\<open>_vertexVectors\<close>);
  with indices it reads the cached array at each index, \<^verbatim>\<open>undefined\<close> when out of range.\<close>

definition vertexVectors :: "Polyhedron \<Rightarrow> Vec3D list" where
  "vertexVectors p = map vec (vertices p)"

definition vertexVectors_at :: "Polyhedron \<Rightarrow> VIndex list \<Rightarrow> Vec3D option list" where
  "vertexVectors_at p is =
     map (\<lambda>vIndex. if vIndex < length (vertexVectors p) then Some (vertexVectors p ! vIndex) else None) is"

definition graph_push :: "('k \<rightharpoonup> 'a list) \<Rightarrow> 'k \<Rightarrow> 'a \<Rightarrow> ('k \<rightharpoonup> 'a list)" where
  "graph_push graph k x = graph(k \<mapsto> (case graph k of None \<Rightarrow> [] | Some l \<Rightarrow> l) @ [x])"

definition vertexGraph :: "Polyhedron \<Rightarrow> (VIndex \<rightharpoonup> VIndex list)" where
  "vertexGraph p =
     fold (\<lambda>face graph.
             fold (\<lambda>i graph. graph_push graph (face ! i) (getCyclic face (int i + 1)))
                  [0 ..< length face] graph)
          (faces p) Map.empty"

text \<open>\<^verbatim>\<open>mapping[vIndex].push(face)\<close> throws a \<^verbatim>\<open>TypeError\<close> when \<^verbatim>\<open>vIndex\<close> is not an index
  of \<^verbatim>\<open>vertices\<close>.\<close>

fun vertexToFaceGraph_face :: "FaceObj \<Rightarrow> VIndex list \<Rightarrow> FaceObj list list \<Rightarrow> error + FaceObj list list" where
  "vertexToFaceGraph_face face [] mapping = Inr mapping"
| "vertexToFaceGraph_face face (vIndex # rest) mapping =
     (if vIndex < length mapping
      then vertexToFaceGraph_face face rest (mapping[vIndex := mapping ! vIndex @ [face]])
      else Inl TypeError)"

fun vertexToFaceGraph_loop :: "Polyhedron \<Rightarrow> FaceObj list \<Rightarrow> FaceObj list list \<Rightarrow> error + FaceObj list list" where
  "vertexToFaceGraph_loop p [] mapping = Inr mapping"
| "vertexToFaceGraph_loop p (face # rest) mapping =
     (case vertexToFaceGraph_face face (face_vIndices p face) mapping of
        Inl e \<Rightarrow> Inl e
      | Inr mapping' \<Rightarrow> vertexToFaceGraph_loop p rest mapping')"

definition vertexToFaceGraph :: "Polyhedron \<Rightarrow> error + FaceObj list list" where
  "vertexToFaceGraph p = vertexToFaceGraph_loop p (getFaces p) (map (\<lambda>_. []) (vertices p))"

text \<open>\<^verbatim>\<open>_.set(edgesToFaces, [v1, v2], face)\<close>: a nested table, a later face overwrites an
  earlier one at the same directed edge.\<close>

definition set2 :: "('a \<rightharpoonup> ('b \<rightharpoonup> 'c)) \<Rightarrow> 'a \<Rightarrow> 'b \<Rightarrow> 'c \<Rightarrow> ('a \<rightharpoonup> ('b \<rightharpoonup> 'c))" where
  "set2 t k1 k2 x = t(k1 \<mapsto> (case t k1 of None \<Rightarrow> Map.empty | Some m \<Rightarrow> m)(k2 \<mapsto> x))"

definition directedEdgeToFaceGraph :: "Polyhedron \<Rightarrow> (VIndex \<rightharpoonup> (VIndex \<rightharpoonup> FaceObj))" where
  "directedEdgeToFaceGraph p =
     fold (\<lambda>face edgesToFaces.
             fold (\<lambda>(v1, v2) edgesToFaces. set2 edgesToFaces v1 v2 face)
                  (directedEdges p face) edgesToFaces)
          (getFaces p) Map.empty"

text \<open>\<^verbatim>\<open>[graph[v1][v2], graph[v2][v1]]\<close>: reading \<^verbatim>\<open>graph[v1][v2]\<close> throws when \<^verbatim>\<open>graph[v1]\<close>
  is \<^verbatim>\<open>undefined\<close>, and is \<^verbatim>\<open>undefined\<close> when only the inner key is missing.\<close>

definition edgeFaces :: "Polyhedron \<Rightarrow> Edge \<Rightarrow> error + (FaceObj option \<times> FaceObj option)" where
  "edgeFaces p e =
     (case e of (v1, v2) \<Rightarrow>
        (let graph = directedEdgeToFaceGraph p in
         case graph v1 of
           None \<Rightarrow> Inl TypeError
         | Some m1 \<Rightarrow>
             (case graph v2 of
                None \<Rightarrow> Inl TypeError
              | Some m2 \<Rightarrow> Inr (m1 v2, m2 v1))))"

text \<open>\<^verbatim>\<open>faceGraph\<close> walks \<^verbatim>\<open>this.edges\<close>; \<^verbatim>\<open>f1.fIndex\<close> throws when the edge has no face
  in one direction.\<close>

fun faceGraph_loop :: "Polyhedron \<Rightarrow> Edge list \<Rightarrow> (FIndex \<rightharpoonup> FaceObj list) \<Rightarrow> error + (FIndex \<rightharpoonup> FaceObj list)" where
  "faceGraph_loop p [] graph = Inr graph"
| "faceGraph_loop p (edge # rest) graph =
     (case edgeFaces p edge of
        Inl e \<Rightarrow> Inl e
      | Inr (Some f1, Some f2) \<Rightarrow> faceGraph_loop p rest (graph_push (graph_push graph f1 f2) f2 f1)
      | Inr _ \<Rightarrow> Inl TypeError)"

definition faceGraph :: "Polyhedron \<Rightarrow> error + (FIndex \<rightharpoonup> FaceObj list)" where
  "faceGraph p = faceGraph_loop p (edges p) Map.empty"

text \<open>Modelled from the spec: \<^verbatim>\<open>FaceObj.adjacentFaces()\<close> is missing; the adjacent faces
  through the mesh's face-adjacency graph, the entry of \<^verbatim>\<open>faceGraph()\<close> at the face's index
  (\<^verbatim>\<open>undefined\<close> when the graph has none).\<close>

definition face_adjacentFaces :: "Polyhedron \<Rightarrow> FaceObj \<Rightarrow> error + FaceObj list option" where
  "face_adjacentFaces p f = (case faceGraph p of Inl e \<Rightarrow> Inl e | Inr graph \<Rightarrow> Inr (graph f))"

text \<open>Modelled from the spec: \<^verbatim>\<open>FaceObj.centroid()\<close> is missing; the centroid of the face's
  vertex vectors.  A vertex index outside \<^verbatim>\<open>vertices\<close> gives an \<^verbatim>\<open>undefined\<close> vector, which
  \<^verbatim>\<open>getCentroid\<close> treats as above.\<close>

definition face_centroid :: "Polyhedron \<Rightarrow> FaceObj \<Rightarrow> error + Vec3D" where
  "face_centroid p f = getCentroid (vertexVectors_at p (face_vIndices p f))"


section \<open>Queries\<close>

text \<open>\<^verbatim>\<open>adjacentFaces(...vIndices)\<close>: \<^verbatim>\<open>flatMap\<close> over the entries of \<^verbatim>\<open>vertexToFaceGraph()\<close>,
  then \<^verbatim>\<open>uniqBy(face => face.fIndex)\<close>.  The graph is only computed when there is an index
  to look up; an index outside the graph leaves \<^verbatim>\<open>undefined\<close> in the list, and reading its
  \<^verbatim>\<open>fIndex\<close> throws.\<close>

definition adjacentFaces :: "Polyhedron \<Rightarrow> VIndex list \<Rightarrow> error + FaceObj list" where
  "adjacentFaces p is =
     (if is = [] then Inr []
      else case vertexToFaceGraph p of
             Inl e \<Rightarrow> Inl e
           | Inr mapping \<Rightarrow>
               if \<exists>vIndex \<in> set is. \<not> vIndex < length mapping then Inl TypeError
               else Inr (uniq (concat (map (\<lambda>vIndex. mapping ! vIndex) is))))"

text \<open>\<^verbatim>\<open>find\<close> of \<^verbatim>\<open>util.js\<close> is missing, and the spec does not describe it.  The first
  element that satisfies the predicate is its result; what it does when there is none is the
  parameter \<open>strict\<close>: it throws (\<open>strict\<close>), or it returns \<^verbatim>\<open>undefined\<close> as \<^verbatim>\<open>_.find\<close>
  does.\<close>

definition find_miss :: "bool \<Rightarrow> error + 'a option" where
  "find_miss strict = (if strict then Inl (Error ''find: no element satisfies the predicate'') else Inr None)"

text \<open>\<^verbatim>\<open>find(touchingFaces, checkVertex)\<close> with
  \<^verbatim>\<open>checkVertex = f => next.prevVertex(vIndex) === f.nextVertex(vIndex)\<close>: when \<^verbatim>\<open>next\<close> is
  \<^verbatim>\<open>undefined\<close> the first call of the predicate throws.\<close>

definition find_checkVertex ::
  "bool \<Rightarrow> Polyhedron \<Rightarrow> VIndex \<Rightarrow> FaceObj list \<Rightarrow> FaceObj option \<Rightarrow> error + FaceObj option" where
  "find_checkVertex strict p vIndex touchingFaces next =
     (case next of
        None \<Rightarrow> (if touchingFaces = [] then find_miss strict else Inl TypeError)
      | Some nf \<Rightarrow>
          (case List.find (\<lambda>f. prevVertex p nf vIndex = nextVertex p f vIndex) touchingFaces of
             Some f \<Rightarrow> Inr (Some f)
           | None \<Rightarrow> find_miss strict))"

text \<open>The \<^verbatim>\<open>do ... while (result.length < touchingFaces.length)\<close> loop.\<close>

function directedAdjacentFaces_loop ::
  "bool \<Rightarrow> Polyhedron \<Rightarrow> VIndex \<Rightarrow> FaceObj list \<Rightarrow> FaceObj option list \<Rightarrow> FaceObj option
     \<Rightarrow> error + FaceObj option list" where
  "directedAdjacentFaces_loop strict p vIndex touchingFaces result next =
     (let result' = result @ [next] in
      case find_checkVertex strict p vIndex touchingFaces next of
        Inl e \<Rightarrow> Inl e
      | Inr next' \<Rightarrow>
          if length result' < length touchingFaces
          then directedAdjacentFaces_loop strict p vIndex touchingFaces result' next'
          else Inr result')"
  by pat_completeness auto
termination
  by (relation "measure (\<lambda>(strict, p, vIndex, touchingFaces, result, next). length touchingFaces - length result)") auto

definition directedAdjacentFaces :: "bool \<Rightarrow> Polyhedron \<Rightarrow> VIndex \<Rightarrow> error + FaceObj option list" where
  "directedAdjacentFaces strict p vIndex =
     (case adjacentFaces p [vIndex] of
        Inl e \<Rightarrow> Inl e
      | Inr touchingFaces \<Rightarrow>
          directedAdjacentFaces_loop strict p vIndex touchingFaces []
            (case touchingFaces of [] \<Rightarrow> None | f # _ \<Rightarrow> Some f))"

text \<open>\<^verbatim>\<open>getDihedralAngle\<close>.  \<^verbatim>\<open>const [v1, v2] = this.vertexVectors(edge)\<close> reads the two
  vectors of the edge, \<^verbatim>\<open>undefined\<close> for an index outside \<^verbatim>\<open>vertices\<close>.
  \<^verbatim>\<open>.map(face => face.centroid())\<close> runs over both entries of \<^verbatim>\<open>edgeFaces(edge)\<close> and throws a
  \<^verbatim>\<open>TypeError\<close> on an \<^verbatim>\<open>undefined\<close> one; the test \<^verbatim>\<open>!c1 || !c2\<close> comes after both maps, when
  \<^verbatim>\<open>c1\<close> and \<^verbatim>\<open>c2\<close> are vectors.  The message of its error names the edge; the model leaves
  the edge out of the message.\<close>

definition getDihedralAngle :: "Polyhedron \<Rightarrow> Edge \<Rightarrow> error + number" where
  "getDihedralAngle p edge =
     (let vs = vertexVectors_at p [fst edge, snd edge]; v1 = vs ! 0; v2 = vs ! 1 in
      case getMidpoint v1 v2 of
        Inl e \<Rightarrow> Inl e
      | Inr midpoint \<Rightarrow>
          (case edgeFaces p edge of
             Inl e \<Rightarrow> Inl e
           | Inr (Some face1, Some face2) \<Rightarrow>
               (case face_centroid p face1 of
                  Inl e \<Rightarrow> Inl e
                | Inr cen1 \<Rightarrow>
                    (case face_centroid p face2 of
                       Inl e \<Rightarrow> Inl e
                     | Inr cen2 \<Rightarrow>
                         (let c1 = Some (vsub cen1 midpoint); c2 = Some (vsub cen2 midpoint)
                          in if c1 = None \<or> c2 = None
                             then Inl (Error ''The edge is not connected to two faces.'')
                             else Inr (angleBetween (the c1) (the c2)))))
           | Inr _ \<Rightarrow> Inl TypeError))"


text \<open>\<^verbatim>\<open>_.countBy\<close> builds an object from side count to number of occurrences: a multiset
  of side counts.  \<^verbatim>\<open>_.isEqual\<close> on two such objects is equality of the multisets.\<close>

definition faceCount :: "Polyhedron \<Rightarrow> nat multiset" where
  "faceCount p = mset (map (numSides p) (getFaces p))"

record FaceAdjacency =
  fa_n :: nat
  fa_adj :: "nat multiset"

text \<open>The sort criteria \<^verbatim>\<open>['n', 'adj.length', 'adj[3]', 'adj[4]', 'adj[5]', 'adj[6]',
  'adj[8]', 'adj[10]']\<close>.  \<^verbatim>\<open>adj\<close> is a plain object, so \<^verbatim>\<open>adj.length\<close> is \<^verbatim>\<open>undefined\<close>, and
  \<^verbatim>\<open>adj[k]\<close> is \<^verbatim>\<open>undefined\<close> when no adjacent face has \<open>k\<close> sides.  lodash compares the
  criteria in order, numbers ascending and \<^verbatim>\<open>undefined\<close> after every number: \<open>\<infinity>\<close> stands
  for \<^verbatim>\<open>undefined\<close>, and the lists are compared lexicographically.\<close>

definition adj_criterion :: "nat multiset \<Rightarrow> nat \<Rightarrow> enat" where
  "adj_criterion a k = (if count a k = 0 then \<infinity> else enat (count a k))"

definition sort_criteria :: "FaceAdjacency \<Rightarrow> enat list" where
  "sort_criteria e = enat (fa_n e) # \<infinity> # map (adj_criterion (fa_adj e)) [3, 4, 5, 6, 8, 10]"

text \<open>The first error of a list of results, as the exception of the first failing call of
  a \<^verbatim>\<open>map\<close>.\<close>

fun sequence :: "(error + 'a) list \<Rightarrow> error + 'a list" where
  "sequence [] = Inr []"
| "sequence (Inl e # rs) = Inl e"
| "sequence (Inr x # rs) = (case sequence rs of Inl e \<Rightarrow> Inl e | Inr xs \<Rightarrow> Inr (x # xs))"

text \<open>\<^verbatim>\<open>_.sortBy\<close> is a stable sort.  \<^verbatim>\<open>_.countBy(undefined, ...)\<close> is the empty object.\<close>

definition faceAdjacencyList :: "Polyhedron \<Rightarrow> error + FaceAdjacency list" where
  "faceAdjacencyList p =
     (case sequence
             (map (\<lambda>face.
                     case face_adjacentFaces p face of
                       Inl e \<Rightarrow> Inl e
                     | Inr adjacent \<Rightarrow>
                         Inr \<lparr> fa_n = numSides p face,
                               fa_adj = mset (map (numSides p) (case adjacent of None \<Rightarrow> [] | Some fs \<Rightarrow> fs)) \<rparr>)
                  (getFaces p)) of
        Inl e \<Rightarrow> Inl e
      | Inr faceAdjacencyCounts \<Rightarrow> Inr (sort_key sort_criteria faceAdjacencyCounts))"

definition isSame :: "Polyhedron \<Rightarrow> Polyhedron \<Rightarrow> error + bool" where
  "isSame p other =
     (if faceCount p \<noteq> faceCount other then Inr False
      else case faceAdjacencyList p of
             Inl e \<Rightarrow> Inl e
           | Inr l1 \<Rightarrow>
               (case faceAdjacencyList other of
                  Inl e \<Rightarrow> Inl e
                | Inr l2 \<Rightarrow> Inr (l1 = l2)))"


section \<open>Predicates and meshes used in the statements\<close>

text \<open>A new instance whose vertex-vector cache, face-view cache and graph caches are all
  uncomputed.\<close>

definition caches_fresh :: "Polyhedron \<Rightarrow> bool" where
  "caches_fresh r \<longleftrightarrow>
     vertexVectors_cache r = None \<and> getFace_cache r = [] \<and> vertexGraph_cache r = None \<and>
     vertexToFaceGraph_cache r = None \<and> faceGraph_cache r = None \<and>
     directedEdgeToFaceGraph_cache r = None"

text \<open>What a call leaves of its receiver \<open>p\<close>: the same vertices and faces, the same
  vertex-vector and graph caches; only the lazily computed edge collection (and the face
  views made on the way) may have been stored.\<close>

definition receiver_kept :: "Polyhedron \<Rightarrow> Polyhedron \<Rightarrow> bool" where
  "receiver_kept p p' \<longleftrightarrow>
     vertices p' = vertices p \<and> faces p' = faces p \<and> edges p' = edges p \<and>
     vertexVectors_cache p' = vertexVectors_cache p \<and> vertexGraph_cache p' = vertexGraph_cache p \<and>
     vertexToFaceGraph_cache p' = vertexToFaceGraph_cache p \<and> faceGraph_cache p' = faceGraph_cache p \<and>
     directedEdgeToFaceGraph_cache p' = directedEdgeToFaceGraph_cache p"

text \<open>A single triangle, built from raw arrays.\<close>

definition triangle_mesh :: Polyhedron where
  "triangle_mesh = Polyhedron_of [(0, 0, 0), (1, 0, 0), (0, 1, 0)] [[0, 1, 2]]"

text \<open>What every structural transform returns: a new instance \<open>fst rp\<close> with the vertices
  \<open>vs\<close> and the faces \<open>fs\<close> and uncomputed caches, and the receiver \<open>snd rp\<close> kept.\<close>

definition new_instance :: "Polyhedron \<Rightarrow> Polyhedron \<times> Polyhedron \<Rightarrow> Vertex list \<Rightarrow> Face list \<Rightarrow> bool" where
  "new_instance p rp vs fs \<longleftrightarrow>
     caches_fresh (fst rp) \<and> vertices (fst rp) = vs \<and> faces (fst rp) = fs \<and> receiver_kept p (snd rp)"

text \<open>A stand-in for the library's plane, used to run \<^const>\<open>getPlane\<close> and \<^const>\<open>isPlanar\<close> on
  four points of the plane \<open>z = 0\<close>: the plane is the triangle itself, the distance of a point
  is its height.\<close>

definition triangle_plane :: "Vertex \<Rightarrow> Vertex \<Rightarrow> Vertex \<Rightarrow> Vertex \<times> Vertex \<times> Vertex" where
  "triangle_plane a b c = (a, b, c)"

definition height_distance :: "Vertex \<times> Vertex \<times> Vertex \<Rightarrow> Vertex \<Rightarrow> real" where
  "height_distance plane v = \<bar>snd (snd v)\<bar>"

definition unit_square :: "Vertex list" where
  "unit_square = [(0, 0, 0), (1, 0, 0), (0, 1, 0), (1, 1, 0)]"

text \<open>A regular tetrahedron, and two tetrahedra that share the vertex \<open>0\<close> and nothing else:
  a closed mesh in which the faces around vertex \<open>0\<close> form two separate fans.\<close>

definition tetrahedron :: Polyhedron where
  "tetrahedron = Polyhedron_of [(1, 1, 1), (1, -1, -1), (-1, 1, -1), (-1, -1, 1)]
     [[0, 1, 2], [0, 2, 3], [0, 3, 1], [1, 3, 2]]"

definition two_tetrahedra :: Polyhedron where
  "two_tetrahedra = Polyhedron_of
     [(0, 0, 0), (1, 0, 1), (0, 1, 1), (1, 1, 2), (1, 0, -1), (0, 1, -1), (1, 1, -2)]
     [[0, 1, 2], [0, 2, 3], [0, 3, 1], [1, 3, 2], [0, 4, 5], [0, 5, 6], [0, 6, 4], [4, 6, 5]]"

text \<open>The faces of the tetrahedron over three vertices only: the index \<open>3\<close> of the faces
  is outside \<^verbatim>\<open>vertices\<close>.\<close>

definition tetrahedron_missing_vertex :: Polyhedron where
  "tetrahedron_missing_vertex = Polyhedron_of [(1, 1, 1), (1, -1, -1), (-1, 1, -1)]
     [[0, 1, 2], [0, 2, 3], [0, 3, 1], [1, 3, 2]]"

text \<open>The faces \<open>fs\<close> are ordered as a cyclic fan around \<open>vIndex\<close>: each successive face (the
  first one after the last) is one whose next vertex at \<open>vIndex\<close> is the previous face's
  previous vertex.\<close>

definition cyclic_fan :: "Polyhedron \<Rightarrow> VIndex \<Rightarrow> FaceObj list \<Rightarrow> bool" where
  "cyclic_fan p vIndex fs \<longleftrightarrow>
     list_all (\<lambda>i. nextVertex p (fs ! ((i + 1) mod length fs)) vIndex = prevVertex p (fs ! i) vIndex)
       [0 ..< length fs]"

text \<open>The touching faces of \<open>vIndex\<close> form one consistent cycle: some ordering \<open>cyc\<close> of all
  of them is a cyclic fan, and no two of them leave \<open>vIndex\<close> along the same edge.\<close>

definition consistent_cycle :: "Polyhedron \<Rightarrow> VIndex \<Rightarrow> FaceObj list \<Rightarrow> FaceObj list \<Rightarrow> bool" where
  "consistent_cycle p vIndex touchingFaces cyc \<longleftrightarrow>
     cyc \<noteq> [] \<and> distinct cyc \<and> set cyc = set touchingFaces \<and> length cyc = length touchingFaces \<and>
     distinct (map (\<lambda>f. nextVertex p f vIndex) cyc) \<and> cyclic_fan p vIndex cyc"

text \<open>All directed edges of the mesh, in the order the faces list them, and each one with
  the face it comes from.\<close>

definition all_directedEdges :: "Polyhedron \<Rightarrow> Edge list" where
  "all_directedEdges p = concat (map (directedEdges p) (getFaces p))"

definition directed_edge_faces :: "Polyhedron \<Rightarrow> (Edge \<times> FaceObj) list" where
  "directed_edge_faces p = concat (map (\<lambda>f. map (\<lambda>d. (d, f)) (directedEdges p f)) (getFaces p))"

text \<open>The invariants of the data model on the topology: every directed edge belongs to
  exactly one face (and occurs once in it), joins two different vertices, and its reverse is
  a directed edge of some face, so that every edge is shared by exactly two face sides.\<close>

definition closed_manifold :: "Polyhedron \<Rightarrow> bool" where
  "closed_manifold p \<longleftrightarrow>
     distinct (all_directedEdges p) \<and>
     list_all (\<lambda>(v1, v2). v1 \<noteq> v2 \<and> (v2, v1) \<in> set (all_directedEdges p)) (all_directedEdges p)"

text \<open>Relabelling: the vertex indices inside the faces are renamed by \<open>\<pi>\<close>, the faces are
  listed in the order \<open>\<sigma>\<close> (a list of the old face indices), and the vertex array is replaced
  by \<open>vs\<close> (for a consistent relabelling, the old vertices moved to their new indices).\<close>

definition relabel :: "(VIndex \<Rightarrow> VIndex) \<Rightarrow> FIndex list \<Rightarrow> Vertex list \<Rightarrow> Polyhedron \<Rightarrow> Polyhedron" where
  "relabel \<pi> \<sigma> vs p = Polyhedron_of vs (map (\<lambda>fIndex. map \<pi> (faces p ! fIndex)) \<sigma>)"

text \<open>The entry of a two-level table, \<^verbatim>\<open>t[k1][k2]\<close>, when both levels exist.\<close>

definition lookup2 :: "('a \<rightharpoonup> ('b \<rightharpoonup> 'c)) \<Rightarrow> 'a \<times> 'b \<Rightarrow> 'c option" where
  "lookup2 t k = (case t (fst k) of None \<Rightarrow> None | Some m \<Rightarrow> m (snd k))"

text \<open>The entry of an adjacency graph at a key, empty when there is none.\<close>

definition glist :: "('k \<rightharpoonup> 'a list) \<Rightarrow> 'k \<Rightarrow> 'a list" where
  "glist graph k = (case graph k of None \<Rightarrow> [] | Some l \<Rightarrow> l)"

text \<open>The face a directed edge belongs to.\<close>

definition face_of :: "Polyhedron \<Rightarrow> Edge \<Rightarrow> FaceObj" where
  "face_of p d = the (map_of (directed_edge_faces p) d)"

text \<open>Each directed edge with the number of sides of its face, and the entry of the
  fingerprint for a face given by its vertex list: its side count, and for each of its
  directed edges the side count of the face on the other side.\<close>

definition edge_sides :: "Polyhedron \<Rightarrow> (Edge \<times> nat) list" where
  "edge_sides p = map (\<lambda>(d, f). (d, numSides p f)) (directed_edge_faces p)"

definition face_entry :: "Polyhedron \<Rightarrow> FaceObj \<Rightarrow> FaceAdjacency" where
  "face_entry p f =
     \<lparr> fa_n = numSides p f,
       fa_adj = image_mset (\<lambda>d. the (map_of (edge_sides p) (prod.swap d))) (mset (directedEdges p f)) \<rparr>"

text \<open>Every face has one of the side counts the sort criteria of \<^verbatim>\<open>faceAdjacencyList\<close> name.\<close>

definition catalog_face_types :: "Polyhedron \<Rightarrow> bool" where
  "catalog_face_types p \<longleftrightarrow> list_all (\<lambda>face. length face \<in> {3, 4, 5, 6, 8, 10}) (faces p)"

text \<open>The permutation of the vertex indices that exchanges \<open>0\<close> and \<open>1\<close>.\<close>

definition swap01 :: "VIndex \<Rightarrow> VIndex" where
  "swap01 v = (if v = 0 then 1 else if v = 1 then 0 else v)"

text \<open>A heptagonal pyramid (apex \<open>0\<close>, base \<open>1 \<dots> 7\<close>) next to an enneagonal pyramid (apex
  \<open>8\<close>, base \<open>9 \<dots> 17\<close>), as \<^verbatim>\<open>addPolyhedron\<close> lays two meshes out: a closed, consistently
  oriented mesh.  The coordinates play no role in \<^verbatim>\<open>isSame\<close> and are left at the origin.\<close>

definition pyramid_sides :: "nat \<Rightarrow> nat \<Rightarrow> Face list" where
  "pyramid_sides apex k = map (\<lambda>i. [apex, apex + 1 + i, apex + 1 + (i + 1) mod k]) [0 ..< k]"

definition pyramid_base :: "nat \<Rightarrow> nat \<Rightarrow> Face" where
  "pyramid_base apex k = rev (map (\<lambda>i. apex + 1 + i) [0 ..< k])"

definition two_pyramids :: Polyhedron where
  "two_pyramids = Polyhedron_of (replicate 18 (0, 0, 0))
     (pyramid_sides 0 7 @ [pyramid_base 0 7] @ pyramid_sides 8 9 @ [pyramid_base 8 9])"

section \<open>The memoized accessors, with their caches\<close>

text \<open>
  \<^verbatim>\<open>directedEdgeToFaceGraph\<close>, \<^verbatim>\<open>faceGraph\<close> and the face views are \<^verbatim>\<open>_.memoize\<close>d per instance:
  a call returns the cached value when there is one, and stores the value it computes.
  \<^verbatim>\<open>_.memoize\<close> stores nothing when the computation throws.  The functions of this section
  return the result together with the instance as the call leaves it; the functions above
  are the values they compute.
\<close>

text \<open>\<^verbatim>\<open>vertexVectors()\<close> fills the field \<^verbatim>\<open>_vertexVectors\<close> on its first call; \<^verbatim>\<open>vertexGraph\<close>
  and \<^verbatim>\<open>vertexToFaceGraph\<close> are memoized without arguments.\<close>

definition vertexVectors_st :: "Polyhedron \<Rightarrow> Vec3D list \<times> Polyhedron" where
  "vertexVectors_st p =
     (case vertexVectors_cache p of
        Some vectors \<Rightarrow> (vectors, p)
      | None \<Rightarrow> (vertexVectors p, p\<lparr> vertexVectors_cache := Some (vertexVectors p) \<rparr>))"

definition vertexGraph_st :: "Polyhedron \<Rightarrow> (VIndex \<rightharpoonup> VIndex list) \<times> Polyhedron" where
  "vertexGraph_st p =
     (case vertexGraph_cache p of
        Some graph \<Rightarrow> (graph, p)
      | None \<Rightarrow> (vertexGraph p, p\<lparr> vertexGraph_cache := Some (vertexGraph p) \<rparr>))"

definition vertexToFaceGraph_st :: "Polyhedron \<Rightarrow> (error + FaceObj list list) \<times> Polyhedron" where
  "vertexToFaceGraph_st p =
     (case vertexToFaceGraph_cache p of
        Some mapping \<Rightarrow> (Inr mapping, p)
      | None \<Rightarrow>
          (let p1 = snd (getFaces_st p) in
           case vertexToFaceGraph p1 of
             Inl e \<Rightarrow> (Inl e, p1)
           | Inr mapping \<Rightarrow> (Inr mapping, p1\<lparr> vertexToFaceGraph_cache := Some mapping \<rparr>)))"

definition directedEdgeToFaceGraph_st ::
  "Polyhedron \<Rightarrow> (VIndex \<rightharpoonup> (VIndex \<rightharpoonup> FaceObj)) \<times> Polyhedron" where
  "directedEdgeToFaceGraph_st p =
     (case directedEdgeToFaceGraph_cache p of
        Some edgesToFaces \<Rightarrow> (edgesToFaces, p)
      | None \<Rightarrow>
          (let p1 = snd (getFaces_st p); edgesToFaces = directedEdgeToFaceGraph p1
           in (edgesToFaces, p1\<lparr> directedEdgeToFaceGraph_cache := Some edgesToFaces \<rparr>)))"

definition edgeFaces_st ::
  "Polyhedron \<Rightarrow> Edge \<Rightarrow> (error + (FaceObj option \<times> FaceObj option)) \<times> Polyhedron" where
  "edgeFaces_st p e =
     (let (graph, p1) = directedEdgeToFaceGraph_st p in
      (case e of (v1, v2) \<Rightarrow>
         (case graph v1 of
            None \<Rightarrow> Inl TypeError
          | Some m1 \<Rightarrow>
              (case graph v2 of
                 None \<Rightarrow> Inl TypeError
               | Some m2 \<Rightarrow> Inr (m1 v2, m2 v1))), p1))"

fun faceGraph_loop_st ::
  "Polyhedron \<Rightarrow> Edge list \<Rightarrow> (FIndex \<rightharpoonup> FaceObj list)
     \<Rightarrow> (error + (FIndex \<rightharpoonup> FaceObj list)) \<times> Polyhedron" where
  "faceGraph_loop_st p [] graph = (Inr graph, p)"
| "faceGraph_loop_st p (edge # rest) graph =
     (case edgeFaces_st p edge of
        (Inl e, p1) \<Rightarrow> (Inl e, p1)
      | (Inr (Some f1, Some f2), p1) \<Rightarrow>
          faceGraph_loop_st p1 rest (graph_push (graph_push graph f1 f2) f2 f1)
      | (Inr _, p1) \<Rightarrow> (Inl TypeError, p1))"

definition faceGraph_st :: "Polyhedron \<Rightarrow> (error + (FIndex \<rightharpoonup> FaceObj list)) \<times> Polyhedron" where
  "faceGraph_st p =
     (case faceGraph_cache p of
        Some graph \<Rightarrow> (Inr graph, p)
      | None \<Rightarrow>
          (let (es, p1) = edges_st p in
           case faceGraph_loop_st p1 es Map.empty of
             (Inl e, p2) \<Rightarrow> (Inl e, p2)
           | (Inr graph, p2) \<Rightarrow> (Inr graph, p2\<lparr> faceGraph_cache := Some graph \<rparr>)))"

text \<open>\<^verbatim>\<open>_.map(this.getFaces(), face => ({ n: ..., adj: ... }))\<close>: the first exception ends the
  walk.\<close>

fun faceAdjacencyCounts_st ::
  "Polyhedron \<Rightarrow> FaceObj list \<Rightarrow> (error + FaceAdjacency list) \<times> Polyhedron" where
  "faceAdjacencyCounts_st p [] = (Inr [], p)"
| "faceAdjacencyCounts_st p (face # rest) =
     (case faceGraph_st p of
        (Inl e, p1) \<Rightarrow> (Inl e, p1)
      | (Inr graph, p1) \<Rightarrow>
          (let entry = \<lparr> fa_n = numSides p1 face,
                          fa_adj = mset (map (numSides p1) (case graph face of None \<Rightarrow> [] | Some fs \<Rightarrow> fs)) \<rparr>
           in case faceAdjacencyCounts_st p1 rest of
                (Inl e, p2) \<Rightarrow> (Inl e, p2)
              | (Inr entries, p2) \<Rightarrow> (Inr (entry # entries), p2)))"

definition faceAdjacencyList_st :: "Polyhedron \<Rightarrow> (error + FaceAdjacency list) \<times> Polyhedron" where
  "faceAdjacencyList_st p =
     (let (fs, p1) = getFaces_st p in
      case faceAdjacencyCounts_st p1 fs of
        (Inl e, p2) \<Rightarrow> (Inl e, p2)
      | (Inr faceAdjacencyCounts, p2) \<Rightarrow> (Inr (sort_key sort_criteria faceAdjacencyCounts), p2))"

text \<open>The caches of an instance hold what the instance computes: true of every new
  instance (its caches are empty), and kept by every accessor.\<close>

definition caches_valid :: "Polyhedron \<Rightarrow> bool" where
  "caches_valid p \<longleftrightarrow>
     directedEdgeToFaceGraph_cache p \<in> {None, Some (directedEdgeToFaceGraph p)} \<and>
     (case faceGraph_cache p of None \<Rightarrow> True | Some graph \<Rightarrow> faceGraph p = Inr graph)"

text \<open>Two instances hold the same mesh: equal vertices, faces and edge collections, that
  is, equal snapshots.\<close>

definition same_mesh :: "Polyhedron \<Rightarrow> Polyhedron \<Rightarrow> bool" where
  "same_mesh p q \<longleftrightarrow> vertices p = vertices q \<and> faces p = faces q \<and> edges p = edges q"

section \<open>Verification\<close>

subsection \<open>The snapshot and the edge getter\<close>

lemma getEdges_faces: "faces p = faces q \<Longrightarrow> getEdges p = getEdges q"
  by (rule ext) (simp add: getEdges_def directedEdges_def face_vIndices_def)

lemma getAllEdges_faces: "faces p = faces q \<Longrightarrow> getAllEdges p = getAllEdges q"
  by (simp add: getAllEdges_def getEdges_faces[of p q] getFaces_def fIndices_def numFaces_def)

lemma edges_st_fst: "fst (edges_st p) = edges p"
  by (simp add: edges_st_def edges_def Let_def split: option.splits)

lemma edges_st_snd:
  "vertices (snd (edges_st p)) = vertices p"
  "faces (snd (edges_st p)) = faces p"
  "edges_cache (snd (edges_st p)) = Some (edges p)"
  "vertexVectors_cache (snd (edges_st p)) = vertexVectors_cache p"
  "vertexGraph_cache (snd (edges_st p)) = vertexGraph_cache p"
  "vertexToFaceGraph_cache (snd (edges_st p)) = vertexToFaceGraph_cache p"
  "faceGraph_cache (snd (edges_st p)) = faceGraph_cache p"
  "directedEdgeToFaceGraph_cache (snd (edges_st p)) = directedEdgeToFaceGraph_cache p"
  by (simp_all add: edges_st_def edges_def getFaces_st_def Let_def split: option.splits)

lemma toJSON_st_fst:
  "fst (toJSON_st p) =
     \<lparr> bp_vertices = vertices p, bp_faces = faces p, bp_edges = Some (edges p), bp_name = None \<rparr>"
  using edges_st_fst[of p] edges_st_snd(1,2)[of p]
  by (cases "edges_st p") (simp add: toJSON_st_def)

lemma toJSON_st_snd: "snd (toJSON_st p) = snd (edges_st p)"
  by (cases "edges_st p") (simp add: toJSON_st_def)

lemma receiver_kept_toJSON: "receiver_kept p (snd (toJSON_st p))"
  by (simp add: receiver_kept_def toJSON_st_snd edges_st_snd edges_def)

lemma getAllEdges_getFace_cache: "getAllEdges (p\<lparr>getFace_cache := c\<rparr>) = getAllEdges p"
  by (rule getAllEdges_faces) simp

lemma receiver_kept_getFaces: "receiver_kept p (snd (getFaces_st p))"
  by (simp add: receiver_kept_def getFaces_st_def edges_def getAllEdges_getFace_cache
      split: option.splits)

lemma receiver_kept_trans: "receiver_kept p p1 \<Longrightarrow> receiver_kept p1 p2 \<Longrightarrow> receiver_kept p p2"
  by (simp add: receiver_kept_def)

lemma withVertices_st_eq:
  "withVertices_st p vs =
     (new_Polyhedron \<lparr> bp_vertices = vs, bp_faces = faces p, bp_edges = Some (edges p), bp_name = None \<rparr>,
      snd (toJSON_st p))"
  using toJSON_st_fst[of p] by (cases "toJSON_st p") (simp add: withVertices_st_def)

lemma withFaces_st_eq:
  "withFaces_st p fs =
     (new_Polyhedron \<lparr> bp_vertices = vertices p, bp_faces = fs, bp_edges = Some (edges p), bp_name = None \<rparr>,
      snd (toJSON_st p))"
  using toJSON_st_fst[of p] by (cases "toJSON_st p") (simp add: withFaces_st_def)

lemma caches_fresh_new: "caches_fresh (new_Polyhedron b)"
  by (simp add: caches_fresh_def new_Polyhedron_def)


subsection \<open>\<^verbatim>\<open>_.pullAt\<close> deletes positions of the original array\<close>

lemma nths_cong_below:
  assumes "\<And>i. i < length xs \<Longrightarrow> (i \<in> A) = (i \<in> B)"
  shows "nths xs A = nths xs B"
proof -
  have "filter (\<lambda>p. snd p \<in> A) (zip xs [0..<length xs]) = filter (\<lambda>p. snd p \<in> B) (zip xs [0..<length xs])"
    by (rule filter_cong) (auto dest!: set_zip_rightD simp: assms)
  then show ?thesis by (simp add: nths_def)
qed

lemma splice1_nths:
  assumes "\<forall>r\<in>R. r < d"
  shows "nths (splice1 d xs) (- R) = nths xs (- insert d R)"
proof (cases "d < length xs")
  case False
  then have "splice1 d xs = xs" by (simp add: splice1_def)
  moreover have "nths xs (- insert d R) = nths xs (- R)"
    using False by (intro nths_cong_below) auto
  ultimately show ?thesis by simp
next
  case True
  have xs: "xs = take d xs @ (xs ! d) # drop (Suc d) xs"
    using True by (simp add: id_take_nth_drop)
  have A: "{j. j + d \<in> - R} = UNIV" using assms by auto
  have C: "{j. Suc (j + d) \<in> - insert d R} = UNIV" using assms by auto
  have l: "length (take d xs) = d" using True by simp
  have "nths (splice1 d xs) (- R) = nths (take d xs) (- R) @ drop (Suc d) xs"
    unfolding splice1_def nths_append l using A by (simp add: nths_all)
  moreover have "nths (take d xs) (- R) = nths (take d xs) (- insert d R)"
    by (rule nths_cong_below) auto
  moreover have "nths xs (- insert d R) = nths (take d xs) (- insert d R) @ drop (Suc d) xs"
    apply (subst xs)
    unfolding nths_append l nths_Cons using C assms by (auto simp: nths_all)
  ultimately show ?thesis by simp
qed

lemma basePullAt_loop_nths:
  assumes "sorted_wrt (\<ge>) ds" "\<forall>q. prev = Some q \<longrightarrow> (\<forall>d\<in>set ds. d \<le> q)"
  shows "basePullAt_loop xs ds prev = nths xs (- (set ds - set_option prev))"
  using assms
proof (induction ds arbitrary: xs prev)
  case Nil
  then show ?case by (simp add: nths_all)
next
  case (Cons d rest)
  show ?case
  proof (cases "prev = Some d")
    case True
    then have "basePullAt_loop xs (d # rest) prev = basePullAt_loop xs rest prev" by simp
    also have "\<dots> = nths xs (- (set rest - set_option prev))"
      using Cons.prems by (intro Cons.IH) auto
    finally show ?thesis using True by (simp add: insert_Diff_if)
  next
    case False
    have le: "\<forall>r\<in>set rest. r \<le> d" using Cons.prems(1) by auto
    have "basePullAt_loop xs (d # rest) prev = basePullAt_loop (splice1 d xs) rest (Some d)"
      using False by simp
    also have "\<dots> = nths (splice1 d xs) (- (set rest - {d}))"
      using Cons.prems(1) le by (subst Cons.IH) auto
    also have "\<dots> = nths xs (- insert d (set rest - {d}))"
      using le by (intro splice1_nths) force
    also have "insert d (set rest - {d}) = set (d # rest) - set_option prev"
      using False Cons.prems(2) le by (cases prev) force+
    finally show ?thesis .
  qed
qed

lemma pullAt_nths: "pullAt xs is = nths xs (- set is)"
proof -
  have "sorted_wrt (\<ge>) (rev (sort is))"
    by (simp add: sorted_wrt_rev)
  then show ?thesis
    unfolding pullAt_def basePullAt_def by (simp add: basePullAt_loop_nths)
qed

subsection \<open>Structural transforms\<close>

lemma new_instance_withVertices: "new_instance p (withVertices_st p vs) vs (faces p)"
  by (simp add: new_instance_def withVertices_st_eq caches_fresh_new receiver_kept_toJSON)
     (simp add: new_Polyhedron_def)

lemma new_instance_withFaces: "new_instance p (withFaces_st p fs) (vertices p) fs"
  by (simp add: new_instance_def withFaces_st_eq caches_fresh_new receiver_kept_toJSON)
     (simp add: new_Polyhedron_def)

lemma edges_cache_withVertices: "edges_cache (fst (withVertices_st p vs)) = Some (edges p)"
  by (simp add: withVertices_st_eq new_Polyhedron_def)

lemma new_instance_addPolyhedron:
  "new_instance p (addPolyhedron_st p other) (vertices p @ vertices other)
     (faces p @ map (map (\<lambda>vIndex. vIndex + numVertices p)) (faces other))"
proof -
  have "addPolyhedron_st p other =
     (fst (addFaces_st (fst (addVertices_st p (vertices other)))
        (map (map (\<lambda>vIndex. vIndex + numVertices (snd (addVertices_st p (vertices other))))) (faces other))),
      snd (addVertices_st p (vertices other)))"
    by (cases "addVertices_st p (vertices other)") (simp add: addPolyhedron_st_def)
  moreover have "numVertices (snd (addVertices_st p (vertices other))) = numVertices p"
    using new_instance_withVertices[of p "vertices p @ vertices other"]
    by (simp add: new_instance_def receiver_kept_def addVertices_st_def numVertices_def)
  ultimately show ?thesis
    using new_instance_withVertices[of p "vertices p @ vertices other"]
      new_instance_withFaces[of "fst (addVertices_st p (vertices other))"]
    by (simp add: new_instance_def addVertices_st_def addFaces_st_def)
qed

lemma new_instance_mapFaces:
  "new_instance p (mapFaces_st p iteratee) (vertices p) (map iteratee (getFaces p))"
proof -
  have "mapFaces_st p iteratee = withFaces_st (snd (getFaces_st p)) (map iteratee (getFaces p))"
    by (simp add: mapFaces_st_def getFaces_st_def)
  then show ?thesis
    using new_instance_withFaces[of "snd (getFaces_st p)" "map iteratee (getFaces p)"]
      receiver_kept_getFaces[of p]
    by (auto simp: new_instance_def intro: receiver_kept_trans) (simp add: receiver_kept_def)
qed

text \<open>
  Claim C1, as the code has it.  Every structural transform (\<^verbatim>\<open>withVertices\<close>, \<^verbatim>\<open>withFaces\<close>,
  \<^verbatim>\<open>addVertices\<close>, \<^verbatim>\<open>addFaces\<close>, \<^verbatim>\<open>addPolyhedron\<close>, \<^verbatim>\<open>removeFace\<close>, \<^verbatim>\<open>removeFaces\<close>,
  \<^verbatim>\<open>mapVertices\<close>, \<^verbatim>\<open>mapFaces\<close>) returns a new instance that holds the transformed vertex and
  face collections and whose vertex-vector cache, face-view cache and graph caches are
  uncomputed; it leaves the receiver's vertices, faces and the value of its edge collection
  as they were.  The edge collection of the new instance is not uncomputed: the transforms
  that keep the faces (\<^verbatim>\<open>withVertices\<close>, \<^verbatim>\<open>addVertices\<close>, \<^verbatim>\<open>mapVertices\<close>) construct it with the
  receiver's edge collection.
\<close>

theorem transforms_return_new_instance:
  "new_instance p (withVertices_st p vs) vs (faces p) \<and>
   edges_cache (fst (withVertices_st p vs)) = Some (edges p) \<and>
   new_instance p (withFaces_st p fs) (vertices p) fs \<and>
   new_instance p (addVertices_st p vs) (vertices p @ vs) (faces p) \<and>
   edges_cache (fst (addVertices_st p vs)) = Some (edges p) \<and>
   new_instance p (addFaces_st p fs) (vertices p) (faces p @ fs) \<and>
   new_instance p (addPolyhedron_st p other) (vertices p @ vertices other)
     (faces p @ map (map (\<lambda>vIndex. vIndex + numVertices p)) (faces other)) \<and>
   new_instance p (removeFace_st p face) (vertices p) (nths (faces p) (- {face})) \<and>
   new_instance p (removeFaces_st p faceObjs) (vertices p) (nths (faces p) (- set faceObjs)) \<and>
   new_instance p (mapVertices_st p vIteratee)
     (map (\<lambda>i. vIteratee (vertices p ! i) i) [0 ..< numVertices p]) (faces p) \<and>
   edges_cache (fst (mapVertices_st p vIteratee)) = Some (edges p) \<and>
   new_instance p (mapFaces_st p fIteratee) (vertices p) (map fIteratee (getFaces p))"
  using new_instance_withVertices new_instance_withFaces new_instance_addPolyhedron
    new_instance_mapFaces edges_cache_withVertices
  by (simp add: addVertices_st_def addFaces_st_def removeFace_st_def removeFaces_st_def
      mapVertices_st_def pullAt_nths numVertices_def)

text \<open>
  Claim C1 as stated fails: the instance returned by \<^verbatim>\<open>withVertices\<close> on a triangle built
  from raw arrays already holds an edge collection, the one computed on the receiver.
\<close>

theorem withVertices_inherits_edges:
  "edges_cache triangle_mesh = None \<and>
   edges_cache (fst (withVertices_st triangle_mesh [(0, 0, 0), (2, 0, 0), (0, 2, 0)])) \<noteq> None \<and>
   edges_cache (fst (withVertices_st triangle_mesh [(0, 0, 0), (2, 0, 0), (0, 2, 0)]))
     = Some (edges triangle_mesh) \<and>
   edges triangle_mesh = [(0, 1), (1, 2), (0, 2)]"
proof -
  have "edges_cache triangle_mesh = None"
    by (simp add: triangle_mesh_def Polyhedron_of_def new_Polyhedron_def)
  moreover have "edges triangle_mesh = [(0,1),(1,2),(0,2)]"
    by (simp add: triangle_mesh_def edges_def Polyhedron_of_def new_Polyhedron_def getAllEdges_def
        getEdges_def directedEdges_def face_vIndices_def getFaces_def fIndices_def numFaces_def
        getCyclic_def upt_rec)
  ultimately show ?thesis by (simp add: withVertices_st_eq new_Polyhedron_def)
qed

text \<open>
  Claim C10.  \<^verbatim>\<open>removeFaces\<close> reads every given face index against the original face list:
  the faces of the result are the original faces with exactly the given positions deleted
  (for any list of indices, also with repetitions or indices past the end), the vertices and
  the (absent) name are unchanged, and the receiver keeps its faces and vertices.
\<close>

theorem removeFaces_deletes_positions:
  "faces (fst (removeFaces_st p faceObjs)) = nths (faces p) (- set faceObjs) \<and>
   vertices (fst (removeFaces_st p faceObjs)) = vertices p \<and>
   bp_name (toJSON (fst (removeFaces_st p faceObjs))) = bp_name (toJSON p) \<and>
   faces (snd (removeFaces_st p faceObjs)) = faces p \<and>
   vertices (snd (removeFaces_st p faceObjs)) = vertices p"
  by (simp add: removeFaces_st_def withFaces_st_eq pullAt_nths new_Polyhedron_def toJSON_def
      toJSON_st_fst toJSON_st_snd edges_st_snd)

subsection \<open>Round trip through \<^verbatim>\<open>Polyhedron.of\<close>\<close>

text \<open>
  Claim C5.  The snapshot of \<^verbatim>\<open>Polyhedron.of(p.vertices, p.faces)\<close> is the snapshot of \<open>p\<close>
  with the edge collection replaced by the edges derived from the faces: vertices and faces
  are preserved exactly, and neither snapshot has a name.
\<close>

theorem of_roundtrip_snapshot:
  "toJSON (Polyhedron_of (vertices p) (faces p)) = (toJSON p)\<lparr> bp_edges := Some (getAllEdges p) \<rparr> \<and>
   bp_vertices (toJSON (Polyhedron_of (vertices p) (faces p))) = vertices p \<and>
   bp_faces (toJSON (Polyhedron_of (vertices p) (faces p))) = faces p"
proof -
  let ?q = "Polyhedron_of (vertices p) (faces p)"
  have "edges ?q = getAllEdges ?q" by (simp add: edges_def Polyhedron_of_def new_Polyhedron_def)
  also have "\<dots> = getAllEdges p"
    by (rule getAllEdges_faces) (simp add: Polyhedron_of_def new_Polyhedron_def)
  finally show ?thesis
    by (simp add: toJSON_def toJSON_st_fst Polyhedron_of_def new_Polyhedron_def)
qed

subsection \<open>Planes\<close>

text \<open>
  Claim C8.  \<^verbatim>\<open>getPlane\<close> fails, with its explicit error, exactly when fewer than three
  points are given; for three or more points it returns the plane of the first three points;
  and, for three or more points, \<^verbatim>\<open>isPlanar\<close> is true exactly when every point is at a
  distance less than \<open>PRECISION = 10\<^sup>-\<^sup>3\<close> from that plane.
\<close>

theorem getPlane_isPlanar_spec:
  "(getPlane mkPlane points = Inl (Error ''Need at least three points for a plane'')) = (length points < 3) \<and>
   (\<forall>e. getPlane mkPlane points = Inl e \<longrightarrow> length points < 3) \<and>
   (3 \<le> length points \<longrightarrow>
      getPlane mkPlane points = Inr (mkPlane (points ! 0) (points ! 1) (points ! 2)) \<and>
      (isPlanar mkPlane getDistanceToPoint points = Inr True)
        = (\<forall>v \<in> set points. getDistanceToPoint (mkPlane (points ! 0) (points ! 1) (points ! 2)) v < PRECISION) \<and>
      (isPlanar mkPlane getDistanceToPoint points = Inr False)
        = (\<exists>v \<in> set points. \<not> getDistanceToPoint (mkPlane (points ! 0) (points ! 1) (points ! 2)) v < PRECISION)) \<and>
   PRECISION = 1 / 1000"
  by (auto simp: getPlane_def isPlanar_def Let_def list_all_iff PRECISION_def PRECISION_DIGITS_def)

theorem getPlane_isPlanar_spec_witness:
  "3 \<le> length unit_square \<and>
   getPlane triangle_plane unit_square = Inr ((0, 0, 0), (1, 0, 0), (0, 1, 0)) \<and>
   isPlanar triangle_plane height_distance unit_square = Inr True"
proof -
  have len: "3 \<le> length unit_square" by (simp add: unit_square_def)
  have near: "\<forall>v \<in> set unit_square.
       height_distance (triangle_plane (unit_square ! 0) (unit_square ! 1) (unit_square ! 2)) v < PRECISION"
    by (simp add: unit_square_def height_distance_def PRECISION_def PRECISION_DIGITS_def)
  from getPlane_isPlanar_spec[where mkPlane = triangle_plane and points = unit_square
      and getDistanceToPoint = height_distance] len
  have plane: "getPlane triangle_plane unit_square
        = Inr (triangle_plane (unit_square ! 0) (unit_square ! 1) (unit_square ! 2))"
    and planar: "(isPlanar triangle_plane height_distance unit_square = Inr True)
        = (\<forall>v \<in> set unit_square.
             height_distance (triangle_plane (unit_square ! 0) (unit_square ! 1) (unit_square ! 2)) v < PRECISION)"
    by blast+
  from planar near have "isPlanar triangle_plane height_distance unit_square = Inr True" by blast
  moreover from plane have "getPlane triangle_plane unit_square = Inr ((0, 0, 0), (1, 0, 0), (0, 1, 0))"
    by (simp add: unit_square_def triangle_plane_def)
  ultimately show ?thesis using len by blast
qed

subsection \<open>Dihedral angle\<close>

text \<open>
  Claim C3 at a failing input.  On a single triangle the edge \<open>(0, 1)\<close> has a face in one
  direction only.  \<^verbatim>\<open>getDihedralAngle\<close> ends in the \<^verbatim>\<open>TypeError\<close> of calling \<^verbatim>\<open>centroid\<close> on
  \<^verbatim>\<open>undefined\<close>, not in its own error \<^verbatim>\<open>The edge ... is not connected to two faces\<close>: the test
  that throws it comes after the call.
\<close>

theorem getDihedralAngle_boundary_edge:
  "getDihedralAngle triangle_mesh (0, 1) = Inl TypeError"
  by (simp add: getDihedralAngle_def triangle_mesh_def vertexVectors_at_def vertexVectors_def
      getMidpoint_def edgeFaces_def directedEdgeToFaceGraph_def set2_def Polyhedron_of_def new_Polyhedron_def
      directedEdges_def face_vIndices_def getFaces_def fIndices_def numFaces_def getCyclic_def upt_rec)

text \<open>
  Where the second vertex of the edge is missing nothing throws: the midpoint, and with it
  the angle, is \<^verbatim>\<open>NaN\<close>.  A missing first vertex is the receiver of \<^verbatim>\<open>add\<close>, and throws.
\<close>

lemma getDihedralAngle_missing_vertex:
  "getDihedralAngle tetrahedron_missing_vertex (0, 3) = Inr NaN \<and>
   getDihedralAngle tetrahedron_missing_vertex (3, 0) = Inl TypeError"
  by (simp add: getDihedralAngle_def tetrahedron_missing_vertex_def vertexVectors_at_def
      vertexVectors_def getMidpoint_def edgeFaces_def directedEdgeToFaceGraph_def set2_def
      Polyhedron_of_def new_Polyhedron_def directedEdges_def face_vIndices_def getFaces_def
      fIndices_def numFaces_def getCyclic_def upt_rec face_centroid_def getCentroid_def vadd_def
      vsub_def vscale_def vec_def angleBetween_def getNormalized_def vdot_def)

subsection \<open>The fan of faces around a vertex\<close>

declare directedAdjacentFaces_loop.simps [simp del]

lemma upt_0_Suc_Cons: "[0 ..< Suc m] = 0 # map Suc [0 ..< m]"
  by (simp only: upt_conv_Cons[OF zero_less_Suc] map_Suc_upt)

lemma find_unique:
  assumes "x \<in> set xs" "P x" "\<And>y. y \<in> set xs \<Longrightarrow> P y \<Longrightarrow> y = x"
  shows "List.find P xs = Some x"
  using assms(1,3)
proof (induction xs)
  case Nil
  then show ?case by simp
next
  case (Cons a xs)
  show ?case
  proof (cases "P a")
    case True
    have "a = x" by (rule Cons.prems(2)[OF _ True]) simp
    then show ?thesis using True by simp
  next
    case False
    then have "x \<noteq> a" using assms(2) by blast
    then have "x \<in> set xs" using Cons.prems(1) by simp
    moreover have "\<And>y. y \<in> set xs \<Longrightarrow> P y \<Longrightarrow> y = x" by (rule Cons.prems(2)) simp_all
    ultimately have "List.find P xs = Some x" by (rule Cons.IH)
    then show ?thesis using False by simp
  qed
qed

lemma rotate_eq_map:
  "rotate k xs = map (\<lambda>t. xs ! ((k + t) mod length xs)) [0 ..< length xs]"
  by (rule nth_equalityI) (simp_all add: nth_rotate)

lemma consistent_cycleD:
  assumes "consistent_cycle p v touching cyc"
  shows "0 < length cyc" "distinct cyc" "set cyc = set touching" "length touching = length cyc"
    "inj_on (\<lambda>f. nextVertex p f v) (set cyc)"
    "\<And>i. i < length cyc \<Longrightarrow> nextVertex p (cyc ! ((i + 1) mod length cyc)) v = prevVertex p (cyc ! i) v"
proof -
  from assms have *: "cyc \<noteq> []" "distinct cyc" "set cyc = set touching" "length cyc = length touching"
    "distinct (map (\<lambda>f. nextVertex p f v) cyc)"
    "list_all (\<lambda>i. nextVertex p (cyc ! ((i + 1) mod length cyc)) v = prevVertex p (cyc ! i) v) [0 ..< length cyc]"
    unfolding consistent_cycle_def cyclic_fan_def by blast+
  show "0 < length cyc" using *(1) by simp
  show "distinct cyc" by (rule *(2))
  show "set cyc = set touching" by (rule *(3))
  show "length touching = length cyc" using *(4) by simp
  show "inj_on (\<lambda>f. nextVertex p f v) (set cyc)" using *(5) by (simp only: distinct_map)
  show "nextVertex p (cyc ! ((i + 1) mod length cyc)) v = prevVertex p (cyc ! i) v" if "i < length cyc" for i
    using *(6) that unfolding list_all_iff by (simp del: One_nat_def)
qed

lemma find_checkVertex_cycle:
  assumes "consistent_cycle p v touching cyc" "j < length cyc"
  shows "find_checkVertex strict p v touching (Some (cyc ! j)) = Inr (Some (cyc ! ((j + 1) mod length cyc)))"
proof -
  let ?n = "length cyc"
  let ?s = "cyc ! ((j + 1) mod ?n)"
  let ?P = "\<lambda>f. prevVertex p (cyc ! j) v = nextVertex p f v"
  note c = consistent_cycleD[OF assms(1)]
  have "(j + 1) mod ?n < ?n" by (rule mod_less_divisor[OF c(1)])
  then have s_cyc: "?s \<in> set cyc" by (rule nth_mem)
  have s_in: "?s \<in> set touching" using s_cyc unfolding c(3) .
  have s_ok: "?P ?s" using c(6)[OF assms(2)] by (rule sym)
  have found: "List.find ?P touching = Some ?s"
  proof (rule find_unique[where P = ?P and x = ?s])
    show "?s \<in> set touching" by (rule s_in)
    show "?P ?s" by (rule s_ok)
    fix y assume y: "y \<in> set touching" "?P y"
    have ycyc: "y \<in> set cyc" using y(1) unfolding c(3) .
    have eq: "nextVertex p y v = nextVertex p ?s v" using y(2) s_ok by (rule trans[OF sym])
    show "y = ?s" by (rule inj_onD[OF c(5) eq ycyc s_cyc])
  qed
  show ?thesis unfolding find_checkVertex_def option.case found ..
qed

lemma directedAdjacentFaces_loop_cycle:
  assumes "consistent_cycle p v touching cyc" "j < length cyc" "length result < length cyc"
  shows "directedAdjacentFaces_loop strict p v touching result (Some (cyc ! j)) =
           Inr (result @ map (\<lambda>t. Some (cyc ! ((j + t) mod length cyc))) [0 ..< length cyc - length result])"
  using assms(2,3)
proof (induction "length cyc - length result" arbitrary: result j)
  case 0
  then show ?case by simp
next
  case (Suc d)
  let ?n = "length cyc"
  have len: "length touching = ?n" by (rule consistent_cycleD(4)[OF assms(1)])
  have step: "find_checkVertex strict p v touching (Some (cyc ! j)) = Inr (Some (cyc ! ((j + 1) mod ?n)))"
    by (rule find_checkVertex_cycle[OF assms(1) Suc.prems(1)])
  show ?case
  proof (cases "Suc (length result) < ?n")
    case True
    have npos: "0 < ?n" using Suc.prems(1) by (cases cyc) auto
    have j': "(j + 1) mod ?n < ?n" by (rule mod_less_divisor[OF npos])
    have d: "d = ?n - length (result @ [Some (cyc ! j)])" using Suc.hyps(2) by simp
    have "directedAdjacentFaces_loop strict p v touching result (Some (cyc ! j)) =
          directedAdjacentFaces_loop strict p v touching (result @ [Some (cyc ! j)]) (Some (cyc ! ((j + 1) mod ?n)))"
      using True by (subst directedAdjacentFaces_loop.simps) (simp add: step len)
    also have "\<dots> = Inr ((result @ [Some (cyc ! j)]) @
        map (\<lambda>t. Some (cyc ! (((j + 1) mod ?n + t) mod ?n))) [0 ..< ?n - length (result @ [Some (cyc ! j)])])"
      using True by (intro Suc.hyps(1)[OF d j']) simp
    also have "map (\<lambda>t. Some (cyc ! (((j + 1) mod ?n + t) mod ?n))) [0 ..< ?n - length (result @ [Some (cyc ! j)])]
        = map (\<lambda>t. Some (cyc ! ((j + Suc t) mod ?n))) [0 ..< ?n - Suc (length result)]"
      by (simp add: mod_add_left_eq)
    also have "(result @ [Some (cyc ! j)]) @ map (\<lambda>t. Some (cyc ! ((j + Suc t) mod ?n))) [0 ..< ?n - Suc (length result)]
        = result @ map (\<lambda>t. Some (cyc ! ((j + t) mod ?n))) [0 ..< ?n - length result]"
    proof -
      have "?n - length result = Suc (?n - Suc (length result))" using Suc.prems(2) by simp
      then have "[0 ..< ?n - length result] = 0 # map Suc [0 ..< ?n - Suc (length result)]"
        by (simp only: upt_0_Suc_Cons)
      then show ?thesis using Suc.prems(1) by (simp add: comp_def)
    qed
    finally show ?thesis .
  next
    case False
    then have eq: "?n - length result = 1" using Suc.prems(2) by simp
    have "directedAdjacentFaces_loop strict p v touching result (Some (cyc ! j)) = Inr (result @ [Some (cyc ! j)])"
      using False by (subst directedAdjacentFaces_loop.simps) (simp add: step len)
    then show ?thesis using Suc.prems(1) by (simp add: eq)
  qed
qed


lemma cyclic_fan_rotate:
  assumes "consistent_cycle p v touching cyc"
  shows "cyclic_fan p v (rotate k cyc)"
proof -
  let ?n = "length cyc"
  note c = consistent_cycleD[OF assms]
  have "nextVertex p (rotate k cyc ! ((i + 1) mod ?n)) v = prevVertex p (rotate k cyc ! i) v"
    if i: "i < ?n" for i
  proof -
    have lt: "(i + 1) mod ?n < ?n" "(k + i) mod ?n < ?n" by (rule mod_less_divisor[OF c(1)])+
    have "rotate k cyc ! ((i + 1) mod ?n) = cyc ! ((k + (i + 1) mod ?n) mod ?n)"
      by (rule nth_rotate[OF lt(1)])
    also have "(k + (i + 1) mod ?n) mod ?n = ((k + i) mod ?n + 1) mod ?n"
      by (simp add: mod_simps)
    finally have "nextVertex p (rotate k cyc ! ((i + 1) mod ?n)) v
        = nextVertex p (cyc ! (((k + i) mod ?n + 1) mod ?n)) v" by simp
    also have "\<dots> = prevVertex p (cyc ! ((k + i) mod ?n)) v" by (rule c(6)[OF lt(2)])
    also have "cyc ! ((k + i) mod ?n) = rotate k cyc ! i" by (rule nth_rotate[OF i, symmetric])
    finally show ?thesis .
  qed
  then show ?thesis unfolding cyclic_fan_def list_all_iff by simp
qed

text \<open>
  Claim C2, as the code has it.  When the touching faces of \<open>vIndex\<close> form one consistent
  cycle, \<^verbatim>\<open>directedAdjacentFaces(vIndex)\<close> returns them ordered as a cyclic fan that starts at
  the first touching face: every touching face once, each successive face being the one
  whose next vertex at \<open>vIndex\<close> is the previous face's previous vertex.  This holds whatever
  the helper \<^verbatim>\<open>find\<close> does when nothing matches.  (The loop runs at most as many times as
  there are touching faces; the code validates nothing.)
\<close>

theorem directedAdjacentFaces_cyclic_fan:
  assumes "adjacentFaces p [vIndex] = Inr touchingFaces"
    and "consistent_cycle p vIndex touchingFaces cyc"
  shows "\<exists>fan. directedAdjacentFaces strict p vIndex = Inr (map Some fan) \<and>
           length fan = length touchingFaces \<and> distinct fan \<and> set fan = set touchingFaces \<and>
           hd fan = hd touchingFaces \<and> cyclic_fan p vIndex fan"
proof -
  let ?n = "length cyc"
  note c = consistent_cycleD[OF assms(2)]
  have ne: "touchingFaces \<noteq> []" using c(1,4) by auto
  then obtain f rest where t: "touchingFaces = f # rest" by (cases touchingFaces) auto
  have "f \<in> set cyc" using t c(3) by simp
  then obtain k where k: "k < ?n" "cyc ! k = f" by (auto simp: in_set_conv_nth)
  have "directedAdjacentFaces strict p vIndex
      = directedAdjacentFaces_loop strict p vIndex touchingFaces [] (Some (cyc ! k))"
    by (simp add: directedAdjacentFaces_def assms(1) t k(2))
  also have "\<dots> = Inr ([] @ map (\<lambda>t. Some (cyc ! ((k + t) mod ?n))) [0 ..< ?n - length ([] :: FaceObj option list)])"
    by (rule directedAdjacentFaces_loop_cycle[OF assms(2) k(1)]) (use c(1) in simp)
  also have "\<dots> = Inr (map Some (rotate k cyc))"
    by (simp add: rotate_eq_map comp_def)
  finally have res: "directedAdjacentFaces strict p vIndex = Inr (map Some (rotate k cyc))" .
  have "hd (rotate k cyc) = rotate k cyc ! 0" using c(1) by (simp add: hd_conv_nth)
  also have "\<dots> = cyc ! ((k + 0) mod ?n)" by (rule nth_rotate[OF c(1)])
  also have "\<dots> = f" using k by simp
  finally have hd: "hd (rotate k cyc) = hd touchingFaces" using t by simp
  show ?thesis
    using res hd c(2,3,4) cyclic_fan_rotate[OF assms(2), of k]
    by (intro exI[of _ "rotate k cyc"]) simp
qed

lemma ev_adj_tetra: "adjacentFaces tetrahedron [0] = Inr [0, 1, 2]"
  by (simp add: adjacentFaces_def vertexToFaceGraph_def tetrahedron_def Polyhedron_of_def new_Polyhedron_def
     getFaces_def fIndices_def numFaces_def face_vIndices_def upt_rec)

lemma ev_cycle_tetra: "consistent_cycle tetrahedron 0 [0, 1, 2] [0, 1, 2]"
  by (simp add: consistent_cycle_def cyclic_fan_def nextVertex_def prevVertex_def getCyclic_def tetrahedron_def
      Polyhedron_of_def new_Polyhedron_def face_vIndices_def upt_rec)

theorem directedAdjacentFaces_cyclic_fan_witness:
  "adjacentFaces tetrahedron [0] = Inr [0, 1, 2] \<and>
   consistent_cycle tetrahedron 0 [0, 1, 2] [0, 1, 2] \<and>
   (\<exists>fan. directedAdjacentFaces True tetrahedron 0 = Inr (map Some fan) \<and>
       length fan = 3 \<and> hd fan = 0 \<and> cyclic_fan tetrahedron 0 fan)"
  using directedAdjacentFaces_cyclic_fan[OF ev_adj_tetra ev_cycle_tetra, of True] ev_adj_tetra ev_cycle_tetra
  by auto

lemma ev_adj: "adjacentFaces two_tetrahedra [0] = Inr [0, 1, 2, 4, 5, 6]"
  by (simp add: adjacentFaces_def vertexToFaceGraph_def two_tetrahedra_def Polyhedron_of_def new_Polyhedron_def
     getFaces_def fIndices_def numFaces_def face_vIndices_def upt_rec)

lemma ev_daf: "directedAdjacentFaces strict two_tetrahedra 0 = Inr (map Some [0, 1, 2, 0, 1, 2])"
  unfolding directedAdjacentFaces_def ev_adj
  by (simp add: directedAdjacentFaces_loop.simps find_checkVertex_def nextVertex_def prevVertex_def
       getCyclic_def two_tetrahedra_def Polyhedron_of_def new_Polyhedron_def face_vIndices_def)

text \<open>
  Claim C2 as stated fails: in the mesh of two tetrahedra that share vertex \<open>0\<close> the six
  touching faces form two cycles, and the call does not fail: it returns the first fan
  twice, whether \<^verbatim>\<open>find\<close> throws on a miss or not.
\<close>

theorem directedAdjacentFaces_two_fans:
  "adjacentFaces two_tetrahedra [0] = Inr [0, 1, 2, 4, 5, 6] \<and>
   directedAdjacentFaces True two_tetrahedra 0 = Inr [Some 0, Some 1, Some 2, Some 0, Some 1, Some 2] \<and>
   directedAdjacentFaces False two_tetrahedra 0 = Inr [Some 0, Some 1, Some 2, Some 0, Some 1, Some 2]"
  using ev_adj ev_daf[of True] ev_daf[of False] by simp

subsection \<open>The directed-edge table and the face-adjacency graph\<close>

lemma lookup2_set2: "lookup2 (set2 t a b x) k = (if k = (a, b) then Some x else lookup2 t k)"
  by (cases k) (auto simp: lookup2_def set2_def split: option.splits)

lemma lookup2_fold_inner:
  "lookup2 (fold (\<lambda>(v1, v2) t. set2 t v1 v2 face) ds t) k
     = (if k \<in> set ds then Some face else lookup2 t k)"
proof (induction ds arbitrary: t)
  case Nil
  then show ?case by simp
next
  case (Cons d ds)
  obtain a b where d: "d = (a, b)" by (cases d)
  show ?case by (simp add: d Cons.IH lookup2_set2)
qed

lemma map_of_rev_const: "map_of (rev (map (\<lambda>d. (d, f)) ds)) k = (if k \<in> set ds then Some f else None)"
proof (induction ds)
  case Nil
  then show ?case by simp
next
  case (Cons d ds)
  then show ?case by (simp add: map_add_def)
qed

lemma lookup2_fold_outer:
  "lookup2 (fold (\<lambda>face t. fold (\<lambda>(v1, v2) t. set2 t v1 v2 face) (des face) t) fs t) k
     = (case map_of (rev (concat (map (\<lambda>f. map (\<lambda>d. (d, f)) (des f)) fs))) k of
          Some f \<Rightarrow> Some f
        | None \<Rightarrow> lookup2 t k)"
proof (induction fs arbitrary: t)
  case Nil
  then show ?case by simp
next
  case (Cons f fs)
  show ?case
    by (simp add: Cons.IH lookup2_fold_inner map_add_def map_of_rev_const split: option.splits)
qed

lemma lookup2_directedEdgeToFaceGraph:
  "lookup2 (directedEdgeToFaceGraph p) d = map_of (rev (directed_edge_faces p)) d"
  unfolding directedEdgeToFaceGraph_def directed_edge_faces_def lookup2_fold_outer
  by (simp add: lookup2_def split: option.splits)

lemma fst_directed_edge_faces: "map fst (directed_edge_faces p) = all_directedEdges p"
  by (simp add: directed_edge_faces_def all_directedEdges_def map_concat comp_def)

lemma map_of_rev_distinct:
  assumes "distinct (map fst xs)"
  shows "map_of (rev xs) = map_of xs"
proof (rule ext)
  fix k
  have d: "distinct (map fst (rev xs))" using assms by (simp add: rev_map[symmetric])
  show "map_of (rev xs) k = map_of xs k"
  proof (cases "map_of xs k")
    case None
    then have "k \<notin> fst ` set xs" by (simp add: map_of_eq_None_iff)
    then have "map_of (rev xs) k = None" by (simp add: map_of_eq_None_iff)
    with None show ?thesis by simp
  next
    case (Some v)
    then have "(k, v) \<in> set (rev xs)" using assms by simp
    then have "map_of (rev xs) k = Some v" using d by simp
    with Some show ?thesis by simp
  qed
qed

lemma lookup2_manifold:
  assumes "distinct (all_directedEdges p)"
  shows "lookup2 (directedEdgeToFaceGraph p) d = map_of (directed_edge_faces p) d"
  using assms by (simp add: lookup2_directedEdgeToFaceGraph map_of_rev_distinct fst_directed_edge_faces)

lemma directed_edge_faces_iff:
  "(d, f) \<in> set (directed_edge_faces p) \<longleftrightarrow> f < numFaces p \<and> d \<in> set (directedEdges p f)"
  by (auto simp: directed_edge_faces_def getFaces_def fIndices_def)

lemma map_of_directed_edge_faces:
  assumes "distinct (all_directedEdges p)"
  shows "map_of (directed_edge_faces p) d = Some f \<longleftrightarrow> f < numFaces p \<and> d \<in> set (directedEdges p f)"
  using assms by (simp add: fst_directed_edge_faces directed_edge_faces_iff)

lemma face_of_eq:
  assumes "distinct (all_directedEdges p)" "f < numFaces p" "d \<in> set (directedEdges p f)"
  shows "map_of (directed_edge_faces p) d = Some f" "face_of p d = f"
proof -
  show *: "map_of (directed_edge_faces p) d = Some f"
    using assms by (simp add: map_of_directed_edge_faces)
  show "face_of p d = f" unfolding face_of_def * by simp
qed

lemma all_directedEdges_iff:
  "d \<in> set (all_directedEdges p) \<longleftrightarrow> (\<exists>f < numFaces p. d \<in> set (directedEdges p f))"
  by (auto simp: all_directedEdges_def getFaces_def fIndices_def)

lemma face_of_props:
  assumes "distinct (all_directedEdges p)" "d \<in> set (all_directedEdges p)"
  shows "map_of (directed_edge_faces p) d = Some (face_of p d)"
    "face_of p d < numFaces p" "d \<in> set (directedEdges p (face_of p d))"
proof -
  obtain f where f: "f < numFaces p" "d \<in> set (directedEdges p f)"
    using assms(2) by (auto simp: all_directedEdges_iff)
  note e = face_of_eq[OF assms(1) f]
  show "map_of (directed_edge_faces p) d = Some (face_of p d)" using e by simp
  show "face_of p d < numFaces p" using e f by simp
  show "d \<in> set (directedEdges p (face_of p d))" using e f by simp
qed

lemma edgeFaces_lookup2:
  assumes "lookup2 (directedEdgeToFaceGraph p) (a, b) = Some f1"
    and "lookup2 (directedEdgeToFaceGraph p) (b, a) = Some f2"
  shows "edgeFaces p (a, b) = Inr (Some f1, Some f2)"
  using assms by (auto simp: edgeFaces_def lookup2_def split: option.splits)

lemma closed_manifoldD:
  assumes "closed_manifold p"
  shows "distinct (all_directedEdges p)"
    "\<And>d. d \<in> set (all_directedEdges p) \<Longrightarrow> prod.swap d \<in> set (all_directedEdges p)"
    "\<And>d. d \<in> set (all_directedEdges p) \<Longrightarrow> fst d \<noteq> snd d"
  using assms unfolding closed_manifold_def list_all_iff by auto

lemma edgeFaces_manifold:
  assumes "closed_manifold p" "d \<in> set (all_directedEdges p)"
  shows "edgeFaces p d = Inr (Some (face_of p d), Some (face_of p (prod.swap d)))"
proof -
  note c = closed_manifoldD[OF assms(1)]
  obtain a b where d: "d = (a, b)" by (cases d)
  have "lookup2 (directedEdgeToFaceGraph p) (a, b) = Some (face_of p (a, b))"
    using face_of_props(1)[OF c(1) assms(2)] by (simp add: lookup2_manifold[OF c(1)] d)
  moreover have "lookup2 (directedEdgeToFaceGraph p) (b, a) = Some (face_of p (b, a))"
    using face_of_props(1)[OF c(1) c(2)[OF assms(2)]] by (simp add: lookup2_manifold[OF c(1)] d)
  ultimately show ?thesis unfolding d by (simp add: edgeFaces_lookup2)
qed

lemma glist_push: "glist (graph_push g k x) f = glist g f @ (if f = k then [x] else [])"
  by (simp add: glist_def graph_push_def)

lemma faceGraph_loop_resolved:
  assumes "\<And>e. e \<in> set es \<Longrightarrow> edgeFaces p e = Inr (Some (f1 e), Some (f2 e))"
  shows "\<exists>g'. faceGraph_loop p es g = Inr g' \<and>
           (\<forall>f. glist g' f = glist g f @
              concat (map (\<lambda>e. (if f = f1 e then [f2 e] else []) @ (if f = f2 e then [f1 e] else [])) es))"
  using assms
proof (induction es arbitrary: g)
  case Nil
  then show ?case by simp
next
  case (Cons e es)
  let ?g1 = "graph_push (graph_push g (f1 e) (f2 e)) (f2 e) (f1 e)"
  have e: "edgeFaces p e = Inr (Some (f1 e), Some (f2 e))" by (rule Cons.prems) simp
  have step: "faceGraph_loop p (e # es) g = faceGraph_loop p es ?g1" by (simp add: e)
  obtain g' where g': "faceGraph_loop p es ?g1 = Inr g'"
    "\<And>f. glist g' f = glist ?g1 f @
        concat (map (\<lambda>e. (if f = f1 e then [f2 e] else []) @ (if f = f2 e then [f1 e] else [])) es)"
    using Cons.IH[of ?g1] Cons.prems by auto
  show ?case
    unfolding step using g' by (intro exI[of _ g']) (simp add: glist_push)
qed


lemma set_uniq: "set (uniq xs) = set xs"
  by (induction xs rule: uniq.induct) auto

lemma distinct_uniq: "distinct (uniq xs)"
  by (induction xs rule: uniq.induct) (auto simp: set_uniq)

lemma getAllEdges_eq:
  "getAllEdges p = uniq (map (\<lambda>(v1, v2). (min v1 v2, max v1 v2)) (all_directedEdges p))"
proof -
  have "getEdges p = (\<lambda>f. map (\<lambda>(v1, v2). (min v1 v2, max v1 v2)) (directedEdges p f))"
    by (rule ext) (simp add: getEdges_def)
  then show ?thesis
    by (simp add: getAllEdges_def all_directedEdges_def map_concat comp_def)
qed

lemma getAllEdges_cases:
  assumes "closed_manifold p" "e \<in> set (getAllEdges p)"
  shows "e \<in> set (all_directedEdges p)" "fst e < snd e"
proof -
  note c = closed_manifoldD[OF assms(1)]
  obtain d where d: "d \<in> set (all_directedEdges p)" "e = (min (fst d) (snd d), max (fst d) (snd d))"
    using assms(2) by (auto simp: getAllEdges_eq set_uniq)
  have ne: "fst d \<noteq> snd d" by (rule c(3)[OF d(1)])
  show "fst e < snd e" using ne d(2) by auto
  have "e = d \<or> e = prod.swap d" using d(2) by (cases d) (auto simp: min_def max_def)
  then show "e \<in> set (all_directedEdges p)" using d(1) c(2)[OF d(1)] by auto
qed

lemma mset_all_directedEdges:
  assumes "closed_manifold p"
  shows "mset (all_directedEdges p) = mset (getAllEdges p) + image_mset prod.swap (mset (getAllEdges p))"
proof -
  let ?E = "getAllEdges p"
  note c = closed_manifoldD[OF assms]
  have dE: "distinct ?E" by (simp add: getAllEdges_eq distinct_uniq)
  have dS: "distinct (map prod.swap ?E)" using dE by (simp add: distinct_map)
  have disj: "set ?E \<inter> set (map prod.swap ?E) = {}"
  proof (rule ccontr)
    assume "set ?E \<inter> set (map prod.swap ?E) \<noteq> {}"
    then obtain x where "x \<in> set ?E" "x \<in> set (map prod.swap ?E)" by blast
    then obtain e where x: "x \<in> set ?E" "e \<in> set ?E" "x = prod.swap e" by auto
    have lt: "fst x < snd x" "fst e < snd e"
      using getAllEdges_cases(2)[OF assms x(1)] getAllEdges_cases(2)[OF assms x(2)] by auto
    have "fst x = snd e" "snd x = fst e" using x(3) by simp_all
    with lt show False by linarith
  qed
  have "set (?E @ map prod.swap ?E) = set (all_directedEdges p)"
  proof (rule set_eqI, rule iffI)
    fix d assume "d \<in> set (?E @ map prod.swap ?E)"
    then consider "d \<in> set ?E" | e where "e \<in> set ?E" "d = prod.swap e" by auto
    then show "d \<in> set (all_directedEdges p)"
    proof cases
      case 1
      then show ?thesis by (rule getAllEdges_cases(1)[OF assms])
    next
      case 2
      then show ?thesis using c(2)[OF getAllEdges_cases(1)[OF assms 2(1)]] by simp
    qed
  next
    fix d assume d: "d \<in> set (all_directedEdges p)"
    let ?s = "(min (fst d) (snd d), max (fst d) (snd d))"
    have s: "?s \<in> set ?E" using d by (force simp: getAllEdges_eq set_uniq)
    have "fst d \<noteq> snd d" by (rule c(3)[OF d])
    then have "d = ?s \<or> d = prod.swap ?s" by (cases d) (auto simp: min_def max_def)
    then show "d \<in> set (?E @ map prod.swap ?E)"
    proof
      assume "d = ?s"
      then show ?thesis using s by simp
    next
      assume "d = prod.swap ?s"
      then have "d \<in> prod.swap ` set ?E" using s by (rule image_eqI)
      then show ?thesis by simp
    qed
  qed
  moreover have "distinct (?E @ map prod.swap ?E)" using dE dS disj by simp
  ultimately have "mset (?E @ map prod.swap ?E) = mset (all_directedEdges p)"
    using c(1) by (simp only: set_eq_iff_mset_eq_distinct[symmetric])
  then show ?thesis by simp
qed

lemma sum_mset_if_single:
  "(\<Sum>d\<in>#M. if P d then {#h d#} else {#}) = image_mset h (filter_mset P M)"
  by (induction M) auto

lemma mset_concat_map: "mset (concat (map h xs)) = (\<Sum>x\<in>#mset xs. mset (h x))"
  by (induction xs) auto

lemma concat_map_if_upt:
  assumes "f < n"
  shows "concat (map (\<lambda>j. if j = f then xs else []) [0 ..< n]) = xs"
  using assms
proof (induction n)
  case 0
  then show ?case by simp
next
  case (Suc n)
  show ?case
  proof (cases "f = n")
    case True
    have "concat (map (\<lambda>j. if j = f then xs else []) [0 ..< n]) = []"
      using True by auto
    then show ?thesis using True by simp
  next
    case False
    then have "f < n" using Suc.prems by simp
    then show ?thesis using Suc.IH False by simp
  qed
qed

lemma filter_face_of:
  assumes "distinct (all_directedEdges p)" "f < numFaces p"
  shows "filter (\<lambda>d. face_of p d = f) (all_directedEdges p) = directedEdges p f"
proof -
  have "filter (\<lambda>d. face_of p d = f) (directedEdges p j) = (if j = f then directedEdges p f else [])"
    if "j \<in> set [0 ..< numFaces p]" for j
  proof -
    have j: "j < numFaces p" using that by simp
    have "face_of p d = j" if "d \<in> set (directedEdges p j)" for d
      by (rule face_of_eq(2)[OF assms(1) j that])
    then show ?thesis by (auto simp: filter_empty_conv intro: filter_True)
  qed
  then have m: "map (\<lambda>j. filter (\<lambda>d. face_of p d = f) (directedEdges p j)) [0 ..< numFaces p]
      = map (\<lambda>j. if j = f then directedEdges p f else []) [0 ..< numFaces p]"
    by (intro map_cong refl)
  have "filter (\<lambda>d. face_of p d = f) (all_directedEdges p)
      = concat (map (\<lambda>j. filter (\<lambda>d. face_of p d = f) (directedEdges p j)) [0 ..< numFaces p])"
    by (simp add: all_directedEdges_def getFaces_def fIndices_def filter_concat comp_def)
  also have "\<dots> = concat (map (\<lambda>j. if j = f then directedEdges p f else []) [0 ..< numFaces p])"
    by (simp only: m)
  also have "\<dots> = directedEdges p f" by (rule concat_map_if_upt[OF assms(2)])
  finally show ?thesis .
qed

lemma faceGraph_manifold:
  assumes "closed_manifold p" "edges p = getAllEdges p"
  shows "\<exists>g. faceGraph p = Inr g \<and>
           (\<forall>f < numFaces p. mset (glist g f)
               = image_mset (\<lambda>d. face_of p (prod.swap d)) (mset (directedEdges p f)))"
proof -
  let ?E = "getAllEdges p"
  let ?G = "\<lambda>f d. if face_of p d = f then {#face_of p (prod.swap d)#} else {#}"
  note c = closed_manifoldD[OF assms(1)]
  have res: "edgeFaces p e = Inr (Some (face_of p e), Some (face_of p (prod.swap e)))" if "e \<in> set ?E" for e
    by (rule edgeFaces_manifold[OF assms(1) getAllEdges_cases(1)[OF assms(1) that]])
  obtain g where g: "faceGraph_loop p ?E Map.empty = Inr g"
    "\<And>f. glist g f = glist Map.empty f @
        concat (map (\<lambda>e. (if f = face_of p e then [face_of p (prod.swap e)] else []) @
                         (if f = face_of p (prod.swap e) then [face_of p e] else [])) ?E)"
    using faceGraph_loop_resolved[of ?E p "face_of p" "\<lambda>e. face_of p (prod.swap e)" Map.empty] res
    by blast
  have "mset (glist g f) = image_mset (\<lambda>d. face_of p (prod.swap d)) (mset (directedEdges p f))"
    if f: "f < numFaces p" for f
  proof -
    have "mset (glist g f) = (\<Sum>e\<in>#mset ?E. ?G f e + ?G f (prod.swap e))"
      unfolding g(2) by (simp add: glist_def mset_concat_map) (rule arg_cong[where f = sum_mset], rule image_mset_cong, auto)
    also have "\<dots> = (\<Sum>e\<in>#mset ?E. ?G f e) + (\<Sum>e\<in>#mset ?E. ?G f (prod.swap e))"
      by (rule sum_mset.distrib)
    also have "\<dots> = (\<Sum>e\<in>#mset ?E. ?G f e) + (\<Sum>e\<in>#image_mset prod.swap (mset ?E). ?G f e)"
      by (simp only: multiset.map_comp comp_def)
    also have "\<dots> = (\<Sum>d\<in>#mset (all_directedEdges p). ?G f d)"
      by (simp only: mset_all_directedEdges[OF assms(1)] image_mset_union sum_mset.union)
    also have "\<dots> = image_mset (\<lambda>d. face_of p (prod.swap d))
        (filter_mset (\<lambda>d. face_of p d = f) (mset (all_directedEdges p)))"
      by (rule sum_mset_if_single)
    also have "filter_mset (\<lambda>d. face_of p d = f) (mset (all_directedEdges p)) = mset (directedEdges p f)"
      using filter_face_of[OF c(1) f] by (simp only: mset_filter[symmetric])
    finally show ?thesis .
  qed
  then show ?thesis using g(1) by (simp add: faceGraph_def assms(2))
qed


lemma fst_edge_sides: "map fst (edge_sides p) = all_directedEdges p"
  by (simp add: edge_sides_def fst_directed_edge_faces[symmetric] comp_def case_prod_unfold)

lemma edge_sides_lookup:
  assumes "distinct (all_directedEdges p)" "d \<in> set (all_directedEdges p)"
  shows "map_of (edge_sides p) d = Some (numSides p (face_of p d))"
  using face_of_props(1)[OF assms] by (simp add: edge_sides_def map_of_map)

lemma sequence_Inr: "sequence (map (\<lambda>x. Inr (h x)) xs) = Inr (map h xs)"
  by (induction xs) simp_all

lemma faceAdjacencyList_manifold:
  assumes "closed_manifold p" "edges p = getAllEdges p"
  shows "faceAdjacencyList p = Inr (sort_key sort_criteria (map (face_entry p) (getFaces p)))"
proof -
  note c = closed_manifoldD[OF assms(1)]
  obtain g where g: "faceGraph p = Inr g"
    "\<And>f. f < numFaces p \<Longrightarrow> mset (glist g f)
         = image_mset (\<lambda>d. face_of p (prod.swap d)) (mset (directedEdges p f))"
    using faceGraph_manifold[OF assms] by blast
  have entry: "(case face_adjacentFaces p f of
           Inl e \<Rightarrow> Inl e
         | Inr adjacent \<Rightarrow>
             Inr \<lparr> fa_n = numSides p f,
                   fa_adj = mset (map (numSides p) (case adjacent of None \<Rightarrow> [] | Some fs \<Rightarrow> fs)) \<rparr>)
        = Inr (face_entry p f)" if "f \<in> set (getFaces p)" for f
  proof -
    have f: "f < numFaces p" using that by (simp add: getFaces_def fIndices_def)
    have "mset (map (numSides p) (glist g f)) = image_mset (numSides p) (mset (glist g f))"
      by (rule mset_map)
    also have "\<dots> = image_mset (numSides p)
        (image_mset (\<lambda>d. face_of p (prod.swap d)) (mset (directedEdges p f)))"
      by (simp only: g(2)[OF f])
    also have "\<dots> = image_mset (\<lambda>d. numSides p (face_of p (prod.swap d))) (mset (directedEdges p f))"
      by (simp only: multiset.map_comp comp_def)
    also have "\<dots> = image_mset (\<lambda>d. the (map_of (edge_sides p) (prod.swap d))) (mset (directedEdges p f))"
    proof (rule image_mset_cong)
      fix d assume "d \<in># mset (directedEdges p f)"
      then have "d \<in> set (all_directedEdges p)" using f by (auto simp: all_directedEdges_iff)
      then have "prod.swap d \<in> set (all_directedEdges p)" by (rule c(2))
      then show "numSides p (face_of p (prod.swap d)) = the (map_of (edge_sides p) (prod.swap d))"
        by (simp add: edge_sides_lookup[OF c(1)])
    qed
    finally show ?thesis
      by (simp add: face_adjacentFaces_def g(1) face_entry_def glist_def)
  qed
  have "map (\<lambda>face. case face_adjacentFaces p face of
           Inl e \<Rightarrow> Inl e
         | Inr adjacent \<Rightarrow>
             Inr \<lparr> fa_n = numSides p face,
                   fa_adj = mset (map (numSides p) (case adjacent of None \<Rightarrow> [] | Some fs \<Rightarrow> fs)) \<rparr>)
        (getFaces p) = map (\<lambda>f. Inr (face_entry p f)) (getFaces p)"
    by (rule map_cong[OF refl]) (rule entry)
  then show ?thesis
    unfolding faceAdjacencyList_def by (simp only: sequence_Inr sum.case)
qed


lemma relabel_fields:
  "faces (relabel \<pi> \<sigma> vs p) = map (\<lambda>j. map \<pi> (faces p ! j)) \<sigma>"
  "edges_cache (relabel \<pi> \<sigma> vs p) = None"
  "numFaces (relabel \<pi> \<sigma> vs p) = length \<sigma>"
  "getFaces (relabel \<pi> \<sigma> vs p) = [0 ..< length \<sigma>]"
  by (simp_all add: relabel_def Polyhedron_of_def new_Polyhedron_def numFaces_def getFaces_def fIndices_def)

lemma getCyclic_map:
  assumes "vs \<noteq> []"
  shows "getCyclic (map \<pi> vs) k = \<pi> (getCyclic vs k)"
proof -
  have "0 < int (length vs)" using assms by simp
  then have "k mod int (length vs) < int (length vs)" "0 \<le> k mod int (length vs)"
    by (rule pos_mod_bound, rule pos_mod_sign)
  then have "nat (k mod int (length vs)) < length vs" by linarith
  then show ?thesis by (simp add: getCyclic_def)
qed

lemma directedEdges_map:
  assumes "face_vIndices q i = map \<pi> (face_vIndices p j)"
  shows "directedEdges q i = map (map_prod \<pi> \<pi>) (directedEdges p j)"
proof -
  let ?vs = "face_vIndices p j"
  have "(map \<pi> ?vs ! k, getCyclic (map \<pi> ?vs) (int k + 1)) = map_prod \<pi> \<pi> (?vs ! k, getCyclic ?vs (int k + 1))"
    if "k \<in> set [0 ..< length ?vs]" for k
  proof -
    have k: "k < length ?vs" using that by simp
    then have "?vs \<noteq> []" by auto
    then show ?thesis using k by (simp add: getCyclic_map)
  qed
  then have "map (\<lambda>k. (map \<pi> ?vs ! k, getCyclic (map \<pi> ?vs) (int k + 1))) [0 ..< length ?vs]
      = map (\<lambda>k. map_prod \<pi> \<pi> (?vs ! k, getCyclic ?vs (int k + 1))) [0 ..< length ?vs]"
    by (intro map_cong refl)
  then show ?thesis
    by (simp add: directedEdges_def assms Let_def comp_def)
qed

lemma relabel_face:
  assumes "i < length \<sigma>"
  shows "directedEdges (relabel \<pi> \<sigma> vs p) i = map (map_prod \<pi> \<pi>) (directedEdges p (\<sigma> ! i))"
    and "numSides (relabel \<pi> \<sigma> vs p) i = numSides p (\<sigma> ! i)"
proof -
  have fv: "face_vIndices (relabel \<pi> \<sigma> vs p) i = map \<pi> (face_vIndices p (\<sigma> ! i))"
    using assms by (simp add: face_vIndices_def relabel_fields)
  show "directedEdges (relabel \<pi> \<sigma> vs p) i = map (map_prod \<pi> \<pi>) (directedEdges p (\<sigma> ! i))"
    by (rule directedEdges_map[OF fv])
  show "numSides (relabel \<pi> \<sigma> vs p) i = numSides p (\<sigma> ! i)"
    by (simp add: numSides_def fv)
qed

lemma edge_sides_eq:
  "edge_sides q = concat (map (\<lambda>f. map (\<lambda>d. (d, numSides q f)) (directedEdges q f)) (getFaces q))"
  by (simp add: edge_sides_def directed_edge_faces_def map_concat comp_def)

lemma map_nth_comp: "map (\<lambda>i. h (xs ! i)) [0 ..< length xs] = map h xs"
  by (rule nth_equalityI) simp_all

lemma relabel_edge_sides:
  "edge_sides (relabel \<pi> \<sigma> vs p)
     = map (\<lambda>(d, k). (map_prod \<pi> \<pi> d, k))
         (concat (map (\<lambda>j. map (\<lambda>d. (d, numSides p j)) (directedEdges p j)) \<sigma>))"
proof -
  let ?q = "relabel \<pi> \<sigma> vs p"
  have "map (\<lambda>f. map (\<lambda>d. (d, numSides ?q f)) (directedEdges ?q f)) [0 ..< length \<sigma>]
      = map (\<lambda>i. map (\<lambda>d. (map_prod \<pi> \<pi> d, numSides p (\<sigma> ! i))) (directedEdges p (\<sigma> ! i))) [0 ..< length \<sigma>]"
    by (rule map_cong[OF refl]) (simp add: relabel_face comp_def)
  also have "\<dots> = map (\<lambda>j. map (\<lambda>d. (map_prod \<pi> \<pi> d, numSides p j)) (directedEdges p j)) \<sigma>"
    by (rule map_nth_comp)
  finally show ?thesis
    by (simp add: edge_sides_eq[of ?q] relabel_fields(4) map_concat comp_def)
qed

lemma mset_relabel_edge_sides:
  assumes "mset \<sigma> = mset (fIndices p)"
  shows "mset (edge_sides (relabel \<pi> \<sigma> vs p))
     = image_mset (\<lambda>(d, k). (map_prod \<pi> \<pi> d, k)) (mset (edge_sides p))"
proof -
  let ?h = "\<lambda>j. map (\<lambda>d. (d, numSides p j)) (directedEdges p j)"
  have "mset (concat (map ?h \<sigma>)) = mset (concat (map ?h (fIndices p)))"
    by (simp only: mset_concat_map assms)
  also have "concat (map ?h (fIndices p)) = edge_sides p"
    by (simp add: edge_sides_eq getFaces_def)
  finally show ?thesis
    by (simp only: relabel_edge_sides mset_map)
qed

lemma inj_map_prod: "inj \<pi> \<Longrightarrow> inj (map_prod \<pi> \<pi>)"
  by (rule prod.inj_map)

lemma relabel_all_directedEdges:
  assumes "mset \<sigma> = mset (fIndices p)"
  shows "mset (all_directedEdges (relabel \<pi> \<sigma> vs p)) = mset (map (map_prod \<pi> \<pi>) (all_directedEdges p))"
proof -
  have "mset (all_directedEdges (relabel \<pi> \<sigma> vs p))
      = image_mset fst (mset (edge_sides (relabel \<pi> \<sigma> vs p)))"
    by (simp only: fst_edge_sides[symmetric] mset_map)
  also have "\<dots> = image_mset (\<lambda>x. map_prod \<pi> \<pi> (fst x)) (mset (edge_sides p))"
    by (simp add: mset_relabel_edge_sides[OF assms] multiset.map_comp comp_def case_prod_unfold)
  also have "\<dots> = image_mset (map_prod \<pi> \<pi>) (image_mset fst (mset (edge_sides p)))"
    by (simp add: multiset.map_comp comp_def)
  also have "image_mset fst (mset (edge_sides p)) = mset (all_directedEdges p)"
    by (simp only: fst_edge_sides[symmetric] mset_map)
  finally show ?thesis by simp
qed

lemma closed_manifold_relabel:
  assumes "closed_manifold p" "inj \<pi>" "mset \<sigma> = mset (fIndices p)"
  shows "closed_manifold (relabel \<pi> \<sigma> vs p)"
proof -
  let ?q = "relabel \<pi> \<sigma> vs p"
  note c = closed_manifoldD[OF assms(1)]
  note m = relabel_all_directedEdges[OF assms(3), of \<pi> vs]
  have "inj_on (map_prod \<pi> \<pi>) (set (all_directedEdges p))"
    by (rule inj_on_subset[OF inj_map_prod[OF assms(2)] subset_UNIV])
  then have "distinct (map (map_prod \<pi> \<pi>) (all_directedEdges p))"
    using c(1) by (simp add: distinct_map)
  then have d: "distinct (all_directedEdges ?q)" using mset_eq_imp_distinct_iff[OF m] by simp
  have s: "set (all_directedEdges ?q) = map_prod \<pi> \<pi> ` set (all_directedEdges p)"
    using mset_eq_setD[OF m] by simp
  have "fst d' \<noteq> snd d' \<and> prod.swap d' \<in> set (all_directedEdges ?q)"
    if "d' \<in> set (all_directedEdges ?q)" for d'
  proof -
    have "d' \<in> map_prod \<pi> \<pi> ` set (all_directedEdges p)" using that unfolding s .
    then obtain d where d: "d \<in> set (all_directedEdges p)" "d' = map_prod \<pi> \<pi> d" by (rule imageE)
    have "fst d \<noteq> snd d" by (rule c(3)[OF d(1)])
    then have "fst d' \<noteq> snd d'" using assms(2) d(2) by (cases d) (auto dest: injD)
    moreover have "prod.swap d' = map_prod \<pi> \<pi> (prod.swap d)" using d(2) by (cases d) simp
    then have "prod.swap d' \<in> set (all_directedEdges ?q)" using c(2)[OF d(1)] s by blast
    ultimately show ?thesis by simp
  qed
  then show ?thesis
    unfolding closed_manifold_def list_all_iff using d by (auto simp: case_prod_unfold)
qed

lemma option_eq_SomeI:
  assumes "\<And>k. (a = Some k) = (b = Some k)"
  shows "a = b"
proof (cases a)
  case None
  show ?thesis
  proof (cases b)
    case None
    with \<open>a = None\<close> show ?thesis by simp
  next
    case (Some k)
    then have "a = Some k" using assms[of k] by simp
    with \<open>a = None\<close> show ?thesis by simp
  qed
next
  case (Some k)
  then have "b = Some k" using assms[of k] by simp
  with Some show ?thesis by simp
qed

lemma map_of_relabel_edge_sides:
  assumes "closed_manifold p" "inj \<pi>" "mset \<sigma> = mset (fIndices p)"
  shows "map_of (edge_sides (relabel \<pi> \<sigma> vs p)) (map_prod \<pi> \<pi> d) = map_of (edge_sides p) d"
proof (rule option_eq_SomeI)
  fix k
  let ?q = "relabel \<pi> \<sigma> vs p"
  let ?F = "\<lambda>(d, k). (map_prod \<pi> \<pi> d, k :: nat)"
  have dp: "distinct (map fst (edge_sides p))"
    using closed_manifoldD(1)[OF assms(1)] by (simp add: fst_edge_sides)
  have dq: "distinct (map fst (edge_sides ?q))"
    using closed_manifoldD(1)[OF closed_manifold_relabel[OF assms]] by (simp add: fst_edge_sides)
  have "set_mset (mset (edge_sides ?q)) = set_mset (image_mset ?F (mset (edge_sides p)))"
    by (simp only: mset_relabel_edge_sides[OF assms(3)])
  then have s: "set (edge_sides ?q) = ?F ` set (edge_sides p)" by simp
  have "(map_of (edge_sides ?q) (map_prod \<pi> \<pi> d) = Some k) = ((map_prod \<pi> \<pi> d, k) \<in> set (edge_sides ?q))"
    using dq by simp
  also have "\<dots> = ((d, k) \<in> set (edge_sides p))"
  proof
    assume "(map_prod \<pi> \<pi> d, k) \<in> set (edge_sides ?q)"
    then obtain d0 k0 where 0: "(d0, k0) \<in> set (edge_sides p)" "map_prod \<pi> \<pi> d = map_prod \<pi> \<pi> d0" "k = k0"
      unfolding s by auto
    have "d = d0" using inj_map_prod[OF assms(2)] 0(2) by (rule injD)
    then show "(d, k) \<in> set (edge_sides p)" using 0 by simp
  next
    assume "(d, k) \<in> set (edge_sides p)"
    then have "?F (d, k) \<in> ?F ` set (edge_sides p)" by (rule imageI)
    then show "(map_prod \<pi> \<pi> d, k) \<in> set (edge_sides ?q)" unfolding s by simp
  qed
  also have "\<dots> = (map_of (edge_sides p) d = Some k)" using dp by simp
  finally show "(map_of (edge_sides ?q) (map_prod \<pi> \<pi> d) = Some k) = (map_of (edge_sides p) d = Some k)" .
qed

lemma relabel_face_entry:
  assumes "closed_manifold p" "inj \<pi>" "mset \<sigma> = mset (fIndices p)" "i < length \<sigma>"
  shows "face_entry (relabel \<pi> \<sigma> vs p) i = face_entry p (\<sigma> ! i)"
proof -
  let ?q = "relabel \<pi> \<sigma> vs p"
  have "image_mset (\<lambda>d. the (map_of (edge_sides ?q) (prod.swap d))) (mset (directedEdges ?q i))
      = image_mset (\<lambda>d. the (map_of (edge_sides ?q) (prod.swap (map_prod \<pi> \<pi> d)))) (mset (directedEdges p (\<sigma> ! i)))"
    by (simp add: relabel_face(1)[OF assms(4)] multiset.map_comp comp_def)
  also have "\<dots> = image_mset (\<lambda>d. the (map_of (edge_sides p) (prod.swap d))) (mset (directedEdges p (\<sigma> ! i)))"
  proof (rule image_mset_cong)
    fix d
    have "prod.swap (map_prod \<pi> \<pi> d) = map_prod \<pi> \<pi> (prod.swap d)" by (cases d) simp
    then show "the (map_of (edge_sides ?q) (prod.swap (map_prod \<pi> \<pi> d))) = the (map_of (edge_sides p) (prod.swap d))"
      by (simp only: map_of_relabel_edge_sides[OF assms(1,2,3)])
  qed
  finally show ?thesis
    by (simp add: face_entry_def relabel_face(2)[OF assms(4)])
qed

lemma relabel_entries:
  assumes "closed_manifold p" "inj \<pi>" "mset \<sigma> = mset (fIndices p)"
  shows "map (face_entry (relabel \<pi> \<sigma> vs p)) (getFaces (relabel \<pi> \<sigma> vs p)) = map (face_entry p) \<sigma>"
proof -
  have "map (face_entry (relabel \<pi> \<sigma> vs p)) [0 ..< length \<sigma>]
      = map (\<lambda>i. face_entry p (\<sigma> ! i)) [0 ..< length \<sigma>]"
    by (rule map_cong[OF refl]) (simp add: relabel_face_entry[OF assms])
  then show ?thesis by (simp only: relabel_fields(4) map_nth_comp)
qed

lemma relabel_faceCount:
  assumes "mset \<sigma> = mset (fIndices p)"
  shows "faceCount (relabel \<pi> \<sigma> vs p) = faceCount p"
proof -
  have "map (numSides (relabel \<pi> \<sigma> vs p)) [0 ..< length \<sigma>] = map (\<lambda>i. numSides p (\<sigma> ! i)) [0 ..< length \<sigma>]"
    by (rule map_cong[OF refl]) (simp add: relabel_face(2))
  then have "map (numSides (relabel \<pi> \<sigma> vs p)) [0 ..< length \<sigma>] = map (numSides p) \<sigma>"
    by (simp only: map_nth_comp)
  then have "faceCount (relabel \<pi> \<sigma> vs p) = image_mset (numSides p) (mset \<sigma>)"
    by (simp add: faceCount_def relabel_fields(4))
  then show ?thesis by (simp add: assms faceCount_def getFaces_def)
qed

lemma faceAdjacencyList_relabel:
  assumes "closed_manifold p" "inj \<pi>" "mset \<sigma> = mset (fIndices p)"
  shows "faceAdjacencyList (relabel \<pi> \<sigma> vs p) = Inr (sort_key sort_criteria (map (face_entry p) \<sigma>))"
proof -
  have "edges (relabel \<pi> \<sigma> vs p) = getAllEdges (relabel \<pi> \<sigma> vs p)"
    by (simp add: edges_def relabel_fields(2))
  then show ?thesis
    using faceAdjacencyList_manifold[OF closed_manifold_relabel[OF assms]]
    by (simp only: relabel_entries[OF assms])
qed

subsection \<open>\<^verbatim>\<open>isSame\<close> under relabelling\<close>

lemma face_entry_adj_subset:
  assumes "closed_manifold p" "catalog_face_types p" "f < numFaces p"
  shows "set_mset (fa_adj (face_entry p f)) \<subseteq> {3, 4, 5, 6, 8, 10}"
proof
  fix x assume "x \<in> set_mset (fa_adj (face_entry p f))"
  then obtain d where d: "d \<in> set (directedEdges p f)" "x = the (map_of (edge_sides p) (prod.swap d))"
    by (auto simp: face_entry_def)
  note c = closed_manifoldD[OF assms(1)]
  have "d \<in> set (all_directedEdges p)" using d(1) assms(3) by (auto simp: all_directedEdges_iff)
  then have s: "prod.swap d \<in> set (all_directedEdges p)" by (rule c(2))
  have x: "x = numSides p (face_of p (prod.swap d))"
    using d(2) by (simp add: edge_sides_lookup[OF c(1) s])
  have "face_of p (prod.swap d) < length (faces p)"
    using face_of_props(2)[OF c(1) s] by (simp add: numFaces_def)
  then have "faces p ! face_of p (prod.swap d) \<in> set (faces p)" by (rule nth_mem)
  then have "length (faces p ! face_of p (prod.swap d)) \<in> {3, 4, 5, 6, 8, 10}"
    using assms(2) unfolding catalog_face_types_def list_all_iff by blast
  then show "x \<in> {3, 4, 5, 6, 8, 10}" unfolding x numSides_def face_vIndices_def .
qed

lemma adj_criterion_count: "adj_criterion A k = adj_criterion B k \<Longrightarrow> count A k = count B k"
  by (auto simp: adj_criterion_def split: if_splits)

lemma sort_criteria_inj:
  assumes "set_mset (fa_adj a) \<subseteq> {3, 4, 5, 6, 8, 10}" "set_mset (fa_adj b) \<subseteq> {3, 4, 5, 6, 8, 10}"
    and "sort_criteria a = sort_criteria b"
  shows "a = b"
proof -
  have n: "fa_n a = fa_n b" using assms(3) by (simp add: sort_criteria_def)
  have k: "count (fa_adj a) k = count (fa_adj b) k" if "k \<in> {3, 4, 5, 6, 8, 10}" for k
  proof -
    have "adj_criterion (fa_adj a) k = adj_criterion (fa_adj b) k"
      using assms(3) that by (auto simp: sort_criteria_def)
    then show ?thesis by (rule adj_criterion_count)
  qed
  have "fa_adj a = fa_adj b"
  proof (rule multiset_eqI)
    fix k
    show "count (fa_adj a) k = count (fa_adj b) k"
    proof (cases "k \<in> {3, 4, 5, 6, 8, 10}")
      case True
      then show ?thesis by (rule k)
    next
      case False
      then have "k \<notin> set_mset (fa_adj a)" "k \<notin> set_mset (fa_adj b)" using assms(1,2) by blast+
      then show ?thesis by (simp add: not_in_iff)
    qed
  qed
  with n show ?thesis by simp
qed

text \<open>
  Claim C4, as the code has it.  For a closed, consistently oriented polyhedron \<open>p\<close> whose
  edge collection is the one derived from its faces, \<^verbatim>\<open>isSame(p, p)\<close> is true; and when
  moreover every face of \<open>p\<close> has 3, 4, 5, 6, 8 or 10 sides, \<^verbatim>\<open>isSame(p, relabeled(p))\<close> is
  true for every relabelling: the vertex indices renamed by an injective \<open>\<pi>\<close>, the faces
  listed in any order \<open>\<sigma>\<close>, and any vertex array \<open>vs\<close> (coordinates are ignored).
\<close>

theorem isSame_reflexive_relabel:
  assumes "closed_manifold p" and "edges p = getAllEdges p"
  shows "isSame p p = Inr True \<and>
         (catalog_face_types p \<longrightarrow> inj \<pi> \<longrightarrow> mset \<sigma> = mset (fIndices p) \<longrightarrow>
            isSame p (relabel \<pi> \<sigma> vs p) = Inr True)"
proof
  note fal = faceAdjacencyList_manifold[OF assms]
  show "isSame p p = Inr True" by (simp add: isSame_def fal)
  show "catalog_face_types p \<longrightarrow> inj \<pi> \<longrightarrow> mset \<sigma> = mset (fIndices p) \<longrightarrow>
            isSame p (relabel \<pi> \<sigma> vs p) = Inr True"
  proof (intro impI)
    assume types: "catalog_face_types p" and inj: "inj \<pi>" and perm: "mset \<sigma> = mset (fIndices p)"
    let ?xs = "map (face_entry p) (getFaces p)"
    let ?ys = "sort_key sort_criteria (map (face_entry p) \<sigma>)"
    note fal' = faceAdjacencyList_relabel[OF assms(1) inj perm, of vs]
    have m: "mset ?xs = mset ?ys" by (simp add: perm getFaces_def)
    have i: "inj_on sort_criteria (set ?xs)"
    proof (rule inj_onI)
      fix a b assume a: "a \<in> set ?xs" and b: "b \<in> set ?xs" and eq: "sort_criteria a = sort_criteria b"
      obtain f g where fg: "f < numFaces p" "a = face_entry p f" "g < numFaces p" "b = face_entry p g"
        using a b by (auto simp: getFaces_def fIndices_def)
      show "a = b"
        using face_entry_adj_subset[OF assms(1) types fg(1)] face_entry_adj_subset[OF assms(1) types fg(3)] eq
        unfolding fg(2,4) by (rule sort_criteria_inj)
    qed
    have "sort_key sort_criteria ?xs = ?ys"
      by (rule sort_key_inj_key_eq[OF m i]) (rule sorted_sort_key)
    then show "isSame p (relabel \<pi> \<sigma> vs p) = Inr True"
      by (simp add: isSame_def fal fal' relabel_faceCount[OF perm])
  qed
qed

lemma ade_tetra: "all_directedEdges tetrahedron = [(0,1),(1,2),(2,0),(0,2),(2,3),(3,0),(0,3),(3,1),(1,0),(1,3),(3,2),(2,1)]"
  by (simp add: all_directedEdges_def getFaces_def fIndices_def numFaces_def tetrahedron_def Polyhedron_of_def
      new_Polyhedron_def directedEdges_def face_vIndices_def getCyclic_def upt_rec)

lemma cm_tetra: "closed_manifold tetrahedron"
  by (simp add: closed_manifold_def ade_tetra)

lemma inj_swap01: "inj swap01"
  by (rule injI) (simp add: swap01_def split: if_splits)

theorem isSame_reflexive_relabel_witness:
  "closed_manifold tetrahedron \<and> edges tetrahedron = getAllEdges tetrahedron \<and>
   isSame tetrahedron tetrahedron = Inr True \<and>
   catalog_face_types tetrahedron \<and> inj swap01 \<and> mset [3, 2, 1, 0] = mset (fIndices tetrahedron) \<and>
   isSame tetrahedron
     (relabel swap01 [3, 2, 1, 0] [(1, -1, -1), (1, 1, 1), (-1, 1, -1), (-1, -1, 1)] tetrahedron) = Inr True"
proof -
  have e: "edges tetrahedron = getAllEdges tetrahedron"
    by (simp add: edges_def tetrahedron_def Polyhedron_of_def new_Polyhedron_def)
  have t: "catalog_face_types tetrahedron"
    by (simp add: catalog_face_types_def tetrahedron_def Polyhedron_of_def new_Polyhedron_def)
  have "fIndices tetrahedron = [0, 1, 2, 3]"
    by (simp add: fIndices_def numFaces_def tetrahedron_def Polyhedron_of_def new_Polyhedron_def upt_rec)
  then have s: "mset [3, 2, 1, 0] = mset (fIndices tetrahedron)"
    by (simp add: add_mset_commute)
  show ?thesis
    using isSame_reflexive_relabel[OF cm_tetra e, of swap01 "[3, 2, 1, 0]"
        "[(1, -1, -1), (1, 1, 1), (-1, 1, -1), (-1, -1, 1)]"] cm_tetra e t s inj_swap01
    by blast
qed


lemma faces_tp: "faces two_pyramids = [[0, 1, 2], [0, 2, 3], [0, 3, 4], [0, 4, 5], [0, 5, 6], [0, 6, 7],
  [0, 7, 1], [7, 6, 5, 4, 3, 2, 1], [8, 9, 10], [8, 10, 11], [8, 11, 12],
  [8, 12, 13], [8, 13, 14], [8, 14, 15], [8, 15, 16], [8, 16, 17],
  [8, 17, 9], [17, 16, 15, 14, 13, 12, 11, 10, 9]]"
  by (simp add: two_pyramids_def Polyhedron_of_def new_Polyhedron_def pyramid_sides_def pyramid_base_def upt_rec)

lemma ade_tp: "all_directedEdges two_pyramids =
  [(0, 1), (1, 2), (2, 0), (0, 2), (2, 3), (3, 0), (0, 3), (3, 4), (4, 0), (0, 4), (4, 5), (5, 0),
   (0, 5), (5, 6), (6, 0), (0, 6), (6, 7), (7, 0), (0, 7), (7, 1), (1, 0),
   (7, 6), (6, 5), (5, 4), (4, 3), (3, 2), (2, 1), (1, 7),
   (8, 9), (9, 10), (10, 8), (8, 10), (10, 11), (11, 8), (8, 11), (11, 12), (12, 8),
   (8, 12), (12, 13), (13, 8), (8, 13), (13, 14), (14, 8), (8, 14), (14, 15), (15, 8),
   (8, 15), (15, 16), (16, 8), (8, 16), (16, 17), (17, 8), (8, 17), (17, 9), (9, 8),
   (17, 16), (16, 15), (15, 14), (14, 13), (13, 12), (12, 11), (11, 10), (10, 9), (9, 17)]"
  by (simp add: all_directedEdges_def getFaces_def fIndices_def numFaces_def faces_tp directedEdges_def
     face_vIndices_def getCyclic_def upt_rec)

lemma cm_tp: "closed_manifold two_pyramids"
  by (simp add: closed_manifold_def ade_tp)


lemma es_tp: "edge_sides two_pyramids =
  [((0, 1), 3), ((1, 2), 3), ((2, 0), 3), ((0, 2), 3), ((2, 3), 3), ((3, 0), 3), ((0, 3), 3),
   ((3, 4), 3), ((4, 0), 3), ((0, 4), 3), ((4, 5), 3), ((5, 0), 3), ((0, 5), 3), ((5, 6), 3),
   ((6, 0), 3), ((0, 6), 3), ((6, 7), 3), ((7, 0), 3), ((0, 7), 3), ((7, 1), 3), ((1, 0), 3),
   ((7, 6), 7), ((6, 5), 7), ((5, 4), 7), ((4, 3), 7), ((3, 2), 7), ((2, 1), 7), ((1, 7), 7),
   ((8, 9), 3), ((9, 10), 3), ((10, 8), 3), ((8, 10), 3), ((10, 11), 3), ((11, 8), 3), ((8,
   11), 3), ((11, 12), 3), ((12, 8), 3), ((8, 12), 3), ((12, 13), 3), ((13, 8), 3), ((8, 13),
   3), ((13, 14), 3), ((14, 8), 3), ((8, 14), 3), ((14, 15), 3), ((15, 8), 3), ((8, 15), 3),
   ((15, 16), 3), ((16, 8), 3), ((8, 16), 3), ((16, 17), 3), ((17, 8), 3), ((8, 17), 3), ((17,
   9), 3), ((9, 8), 3), ((17, 16), 9), ((16, 15), 9), ((15, 14), 9), ((14, 13), 9), ((13, 12),
   9), ((12, 11), 9), ((11, 10), 9), ((10, 9), 9), ((9, 17), 9)]"
  by (simp add: edge_sides_def directed_edge_faces_def getFaces_def fIndices_def numFaces_def faces_tp
      directedEdges_def face_vIndices_def getCyclic_def upt_rec numSides_def)

lemma entries_tp: "map (face_entry two_pyramids) [0 ..< 18] =
  [\<lparr>fa_n = 3, fa_adj = mset [3, 7, 3]\<rparr>, \<lparr>fa_n = 3, fa_adj = mset [3, 7,
   3]\<rparr>, \<lparr>fa_n = 3, fa_adj = mset [3, 7, 3]\<rparr>, \<lparr>fa_n = 3, fa_adj =
   mset [3, 7, 3]\<rparr>, \<lparr>fa_n = 3, fa_adj = mset [3, 7, 3]\<rparr>, \<lparr>fa_n = 3,
   fa_adj = mset [3, 7, 3]\<rparr>, \<lparr>fa_n = 3, fa_adj = mset [3, 7, 3]\<rparr>,
   \<lparr>fa_n = 7, fa_adj = mset [3, 3, 3, 3, 3, 3, 3]\<rparr>, \<lparr>fa_n = 3, fa_adj =
   mset [3, 9, 3]\<rparr>, \<lparr>fa_n = 3, fa_adj = mset [3, 9, 3]\<rparr>, \<lparr>fa_n = 3,
   fa_adj = mset [3, 9, 3]\<rparr>, \<lparr>fa_n = 3, fa_adj = mset [3, 9, 3]\<rparr>,
   \<lparr>fa_n = 3, fa_adj = mset [3, 9, 3]\<rparr>, \<lparr>fa_n = 3, fa_adj = mset [3, 9,
   3]\<rparr>, \<lparr>fa_n = 3, fa_adj = mset [3, 9, 3]\<rparr>, \<lparr>fa_n = 3, fa_adj =
   mset [3, 9, 3]\<rparr>, \<lparr>fa_n = 3, fa_adj = mset [3, 9, 3]\<rparr>, \<lparr>fa_n = 9,
   fa_adj = mset [3, 3, 3, 3, 3, 3, 3, 3, 3]\<rparr>]"
  by (simp add: face_entry_def es_tp faces_tp directedEdges_def face_vIndices_def getCyclic_def
      numSides_def upt_rec)

lemma sorted1: "sort_key sort_criteria (map (face_entry two_pyramids) [0 ..< 18]) =
  [\<lparr>fa_n = 3, fa_adj = mset [3, 7, 3]\<rparr>, \<lparr>fa_n = 3, fa_adj = mset [3, 7,
   3]\<rparr>, \<lparr>fa_n = 3, fa_adj = mset [3, 7, 3]\<rparr>, \<lparr>fa_n = 3, fa_adj =
   mset [3, 7, 3]\<rparr>, \<lparr>fa_n = 3, fa_adj = mset [3, 7, 3]\<rparr>, \<lparr>fa_n = 3,
   fa_adj = mset [3, 7, 3]\<rparr>, \<lparr>fa_n = 3, fa_adj = mset [3, 7, 3]\<rparr>,
   \<lparr>fa_n = 3, fa_adj = mset [3, 9, 3]\<rparr>, \<lparr>fa_n = 3, fa_adj = mset [3, 9,
   3]\<rparr>, \<lparr>fa_n = 3, fa_adj = mset [3, 9, 3]\<rparr>, \<lparr>fa_n = 3, fa_adj =
   mset [3, 9, 3]\<rparr>, \<lparr>fa_n = 3, fa_adj = mset [3, 9, 3]\<rparr>, \<lparr>fa_n = 3,
   fa_adj = mset [3, 9, 3]\<rparr>, \<lparr>fa_n = 3, fa_adj = mset [3, 9, 3]\<rparr>,
   \<lparr>fa_n = 3, fa_adj = mset [3, 9, 3]\<rparr>, \<lparr>fa_n = 3, fa_adj = mset [3, 9,
   3]\<rparr>, \<lparr>fa_n = 7, fa_adj = mset [3, 3, 3, 3, 3, 3, 3]\<rparr>, \<lparr>fa_n = 9,
   fa_adj = mset [3, 3, 3, 3, 3, 3, 3, 3, 3]\<rparr>]"
  unfolding entries_tp
  by (simp add: sort_criteria_def adj_criterion_def)


lemma entries_tp_relabelled: "map (face_entry two_pyramids) [8, 9, 10, 11, 12, 13, 14, 15, 16, 17, 0, 1, 2, 3, 4, 5, 6, 7] =
  [\<lparr>fa_n = 3, fa_adj = mset [3, 9, 3]\<rparr>, \<lparr>fa_n = 3, fa_adj = mset [3, 9,
   3]\<rparr>, \<lparr>fa_n = 3, fa_adj = mset [3, 9, 3]\<rparr>, \<lparr>fa_n = 3, fa_adj =
   mset [3, 9, 3]\<rparr>, \<lparr>fa_n = 3, fa_adj = mset [3, 9, 3]\<rparr>, \<lparr>fa_n = 3,
   fa_adj = mset [3, 9, 3]\<rparr>, \<lparr>fa_n = 3, fa_adj = mset [3, 9, 3]\<rparr>,
   \<lparr>fa_n = 3, fa_adj = mset [3, 9, 3]\<rparr>, \<lparr>fa_n = 3, fa_adj = mset [3, 9,
   3]\<rparr>, \<lparr>fa_n = 9, fa_adj = mset [3, 3, 3, 3, 3, 3, 3, 3, 3]\<rparr>,
   \<lparr>fa_n = 3, fa_adj = mset [3, 7, 3]\<rparr>, \<lparr>fa_n = 3, fa_adj = mset [3, 7,
   3]\<rparr>, \<lparr>fa_n = 3, fa_adj = mset [3, 7, 3]\<rparr>, \<lparr>fa_n = 3, fa_adj =
   mset [3, 7, 3]\<rparr>, \<lparr>fa_n = 3, fa_adj = mset [3, 7, 3]\<rparr>, \<lparr>fa_n = 3,
   fa_adj = mset [3, 7, 3]\<rparr>, \<lparr>fa_n = 3, fa_adj = mset [3, 7, 3]\<rparr>,
   \<lparr>fa_n = 7, fa_adj = mset [3, 3, 3, 3, 3, 3, 3]\<rparr>]"
  by (simp add: face_entry_def es_tp faces_tp directedEdges_def face_vIndices_def getCyclic_def
      numSides_def)

lemma sorted2: "sort_key sort_criteria (map (face_entry two_pyramids) [8, 9, 10, 11, 12, 13, 14, 15, 16, 17, 0, 1, 2, 3, 4, 5, 6, 7]) =
  [\<lparr>fa_n = 3, fa_adj = mset [3, 9, 3]\<rparr>, \<lparr>fa_n = 3, fa_adj = mset [3, 9,
   3]\<rparr>, \<lparr>fa_n = 3, fa_adj = mset [3, 9, 3]\<rparr>, \<lparr>fa_n = 3, fa_adj =
   mset [3, 9, 3]\<rparr>, \<lparr>fa_n = 3, fa_adj = mset [3, 9, 3]\<rparr>, \<lparr>fa_n = 3,
   fa_adj = mset [3, 9, 3]\<rparr>, \<lparr>fa_n = 3, fa_adj = mset [3, 9, 3]\<rparr>,
   \<lparr>fa_n = 3, fa_adj = mset [3, 9, 3]\<rparr>, \<lparr>fa_n = 3, fa_adj = mset [3, 9,
   3]\<rparr>, \<lparr>fa_n = 3, fa_adj = mset [3, 7, 3]\<rparr>, \<lparr>fa_n = 3, fa_adj =
   mset [3, 7, 3]\<rparr>, \<lparr>fa_n = 3, fa_adj = mset [3, 7, 3]\<rparr>, \<lparr>fa_n = 3,
   fa_adj = mset [3, 7, 3]\<rparr>, \<lparr>fa_n = 3, fa_adj = mset [3, 7, 3]\<rparr>,
   \<lparr>fa_n = 3, fa_adj = mset [3, 7, 3]\<rparr>, \<lparr>fa_n = 3, fa_adj = mset [3, 7,
   3]\<rparr>, \<lparr>fa_n = 7, fa_adj = mset [3, 3, 3, 3, 3, 3, 3]\<rparr>, \<lparr>fa_n = 9,
   fa_adj = mset [3, 3, 3, 3, 3, 3, 3, 3, 3]\<rparr>]"
  unfolding entries_tp_relabelled
  by (simp add: sort_criteria_def adj_criterion_def)

lemma perm_tp: "mset [8, 9, 10, 11, 12, 13, 14, 15, 16, 17, 0, 1, 2, 3, 4, 5, 6, 7] = mset (fIndices two_pyramids)"
proof -
  have "fIndices two_pyramids = [0, 1, 2, 3, 4, 5, 6, 7, 8, 9, 10, 11, 12, 13, 14, 15, 16, 17]"
    by (simp add: fIndices_def numFaces_def faces_tp upt_rec)
  then show ?thesis by (simp add: add_mset_commute)
qed

lemma isSame_triangle: "isSame triangle_mesh triangle_mesh = Inl TypeError"
  by (simp add: isSame_def faceAdjacencyList_def face_adjacentFaces_def faceGraph_def edges_def
      getAllEdges_def getEdges_def edgeFaces_def directedEdgeToFaceGraph_def set2_def
      triangle_mesh_def Polyhedron_of_def new_Polyhedron_def directedEdges_def face_vIndices_def
      getFaces_def fIndices_def numFaces_def getCyclic_def upt_rec)

text \<open>
  Claim C4 as stated fails.  The mesh of the two pyramids is closed and consistently
  oriented; listing the faces of the second pyramid first gives a mesh that \<^verbatim>\<open>isSame\<close> tells
  apart from the original: the triangles next to the heptagon and those next to the enneagon
  have equal sort criteria (7 and 9 are not among them), so the stable sort keeps them in
  the order of the faces.  And on a mesh that is not closed (a single triangle)
  \<^verbatim>\<open>isSame(p, p)\<close> throws.
\<close>

theorem isSame_relabel_two_pyramids:
  "closed_manifold two_pyramids \<and>
   isSame two_pyramids
     (relabel id [8, 9, 10, 11, 12, 13, 14, 15, 16, 17, 0, 1, 2, 3, 4, 5, 6, 7] (vertices two_pyramids) two_pyramids) = Inr False \<and>
   isSame triangle_mesh triangle_mesh = Inl TypeError"
proof -
  have e: "edges two_pyramids = getAllEdges two_pyramids"
    by (simp add: edges_def two_pyramids_def Polyhedron_of_def new_Polyhedron_def)
  have n: "numFaces two_pyramids = 18" by (simp add: numFaces_def faces_tp)
  have g: "getFaces two_pyramids = [0 ..< 18]"
    unfolding getFaces_def fIndices_def n by (rule list.map_ident)
  have 1: "faceAdjacencyList two_pyramids
      = Inr (sort_key sort_criteria (map (face_entry two_pyramids) [0 ..< 18]))"
    using faceAdjacencyList_manifold[OF cm_tp e] by (simp only: g)
  note 2 = faceAdjacencyList_relabel[OF cm_tp inj_on_id perm_tp, of "vertices two_pyramids"]
  have "isSame two_pyramids
     (relabel id [8, 9, 10, 11, 12, 13, 14, 15, 16, 17, 0, 1, 2, 3, 4, 5, 6, 7] (vertices two_pyramids) two_pyramids) = Inr False"
    unfolding isSame_def relabel_faceCount[OF perm_tp] 1 2 sorted1 sorted2 by simp
  then show ?thesis using cm_tp isSame_triangle by simp
qed

subsection \<open>Memoization is transparent\<close>

lemma same_mesh_refl: "same_mesh p p"
  by (simp add: same_mesh_def)

lemma same_mesh_sym: "same_mesh p q \<Longrightarrow> same_mesh q p"
  by (simp add: same_mesh_def)

lemma same_mesh_trans: "same_mesh p q \<Longrightarrow> same_mesh q r \<Longrightarrow> same_mesh p r"
  by (simp add: same_mesh_def)

lemma same_mesh_toJSON: "same_mesh p q \<longleftrightarrow> toJSON p = toJSON q"
  by (auto simp: same_mesh_def toJSON_def toJSON_st_fst)

lemma directedEdges_faces: "faces p = faces q \<Longrightarrow> directedEdges p = directedEdges q"
  by (rule ext) (simp add: directedEdges_def face_vIndices_def)

lemma numSides_faces: "faces p = faces q \<Longrightarrow> numSides p = numSides q"
  by (rule ext) (simp add: numSides_def face_vIndices_def)

lemma getFaces_faces: "faces p = faces q \<Longrightarrow> getFaces p = getFaces q"
  by (simp add: getFaces_def fIndices_def numFaces_def)

lemma directedEdgeToFaceGraph_faces:
  "faces p = faces q \<Longrightarrow> directedEdgeToFaceGraph p = directedEdgeToFaceGraph q"
  by (simp add: directedEdgeToFaceGraph_def directedEdges_faces[of p q] getFaces_faces[of p q])

lemma edgeFaces_faces: "faces p = faces q \<Longrightarrow> edgeFaces p = edgeFaces q"
  by (rule ext) (simp add: edgeFaces_def directedEdgeToFaceGraph_faces[of p q])

lemma faceGraph_loop_faces:
  assumes "faces p = faces q"
  shows "faceGraph_loop p es g = faceGraph_loop q es g"
proof (induction es arbitrary: g)
  case Nil
  show ?case by simp
next
  case (Cons e es)
  show ?case
    by (simp add: edgeFaces_faces[OF assms] Cons.IH split: sum.splits prod.splits option.splits)
qed

lemma faceGraph_same_mesh: "same_mesh p q \<Longrightarrow> faceGraph p = faceGraph q"
  by (simp add: faceGraph_def same_mesh_def faceGraph_loop_faces[of p q])

lemma faceAdjacencyList_same_mesh:
  assumes "same_mesh p q"
  shows "faceAdjacencyList p = faceAdjacencyList q"
proof -
  have f: "faces p = faces q" using assms by (simp add: same_mesh_def)
  show ?thesis
    unfolding faceAdjacencyList_def face_adjacentFaces_def faceGraph_same_mesh[OF assms]
      numSides_faces[OF f] getFaces_faces[OF f] by (rule refl)
qed

lemma caches_valid_same_mesh:
  assumes "same_mesh p q"
    and "directedEdgeToFaceGraph_cache q = directedEdgeToFaceGraph_cache p"
    and "faceGraph_cache q = faceGraph_cache p"
  shows "caches_valid q = caches_valid p"
proof -
  have f: "faces p = faces q" using assms(1) by (simp add: same_mesh_def)
  show ?thesis
    unfolding caches_valid_def assms(2,3) faceGraph_same_mesh[OF assms(1)]
      directedEdgeToFaceGraph_faces[OF f] by (rule refl)
qed


lemma edges_cache_update:
  "edges (p\<lparr> directedEdgeToFaceGraph_cache := c \<rparr>) = edges p"
  "edges (p\<lparr> faceGraph_cache := c' \<rparr>) = edges p"
proof -
  have "getAllEdges (p\<lparr> directedEdgeToFaceGraph_cache := c \<rparr>) = getAllEdges p"
    by (rule getAllEdges_faces) simp
  then show "edges (p\<lparr> directedEdgeToFaceGraph_cache := c \<rparr>) = edges p"
    by (simp add: edges_def split: option.splits)
  have "getAllEdges (p\<lparr> faceGraph_cache := c' \<rparr>) = getAllEdges p"
    by (rule getAllEdges_faces) simp
  then show "edges (p\<lparr> faceGraph_cache := c' \<rparr>) = edges p"
    by (simp add: edges_def split: option.splits)
qed

lemma same_mesh_update:
  "same_mesh p q \<Longrightarrow> same_mesh p (q\<lparr> directedEdgeToFaceGraph_cache := c \<rparr>)"
  "same_mesh p q \<Longrightarrow> same_mesh p (q\<lparr> faceGraph_cache := c' \<rparr>)"
  by (simp_all add: same_mesh_def edges_cache_update)

lemma getFaces_st_props:
  "fst (getFaces_st p) = getFaces p"
  "same_mesh p (snd (getFaces_st p))"
  "directedEdgeToFaceGraph_cache (snd (getFaces_st p)) = directedEdgeToFaceGraph_cache p"
  "faceGraph_cache (snd (getFaces_st p)) = faceGraph_cache p"
  using receiver_kept_getFaces[of p]
  by (simp_all add: getFaces_st_def same_mesh_def receiver_kept_def)

lemma caches_valid_getFaces_st: "caches_valid (snd (getFaces_st p)) = caches_valid p"
  by (rule caches_valid_same_mesh[OF getFaces_st_props(2,3,4)])

lemma edges_st_props:
  "same_mesh p (snd (edges_st p))"
  "directedEdgeToFaceGraph_cache (snd (edges_st p)) = directedEdgeToFaceGraph_cache p"
  "faceGraph_cache (snd (edges_st p)) = faceGraph_cache p"
  by (simp_all add: same_mesh_def edges_st_snd edges_def)

lemma caches_valid_edges_st: "caches_valid (snd (edges_st p)) = caches_valid p"
  by (rule caches_valid_same_mesh[OF edges_st_props])

lemma directedEdgeToFaceGraph_st_props:
  assumes "caches_valid p"
  shows "fst (directedEdgeToFaceGraph_st p) = directedEdgeToFaceGraph p"
    and "same_mesh p (snd (directedEdgeToFaceGraph_st p))"
    and "caches_valid (snd (directedEdgeToFaceGraph_st p))"
proof -
  define p1 where "p1 = snd (getFaces_st p)"
  define t where "t = directedEdgeToFaceGraph p1"
  define p2 where "p2 = p1\<lparr> directedEdgeToFaceGraph_cache := Some t \<rparr>"
  have sm1: "same_mesh p p1" unfolding p1_def by (rule getFaces_st_props(2))
  have fc1: "faceGraph_cache p1 = faceGraph_cache p" unfolding p1_def by (rule getFaces_st_props(4))
  have f1: "faces p1 = faces p" using sm1 by (simp add: same_mesh_def)
  have t: "t = directedEdgeToFaceGraph p" unfolding t_def by (rule directedEdgeToFaceGraph_faces[OF f1])
  have sm2: "same_mesh p p2" unfolding p2_def using sm1 by (rule same_mesh_update)
  have f2: "faces p2 = faces p" using sm2 by (simp add: same_mesh_def)
  have t2: "directedEdgeToFaceGraph p2 = t" unfolding t by (rule directedEdgeToFaceGraph_faces[OF f2])
  have fg2: "faceGraph p2 = faceGraph p" by (rule faceGraph_same_mesh[OF same_mesh_sym[OF sm2]])
  have c2: "directedEdgeToFaceGraph_cache p2 = Some t" "faceGraph_cache p2 = faceGraph_cache p"
    unfolding p2_def using fc1 by simp_all
  have v2: "caches_valid p2"
    using assms unfolding caches_valid_def c2 t2 fg2 by simp
  have st: "directedEdgeToFaceGraph_st p =
      (case directedEdgeToFaceGraph_cache p of Some edgesToFaces \<Rightarrow> (edgesToFaces, p) | None \<Rightarrow> (t, p2))"
    unfolding directedEdgeToFaceGraph_st_def Let_def p2_def t_def p1_def by (rule refl)
  show "fst (directedEdgeToFaceGraph_st p) = directedEdgeToFaceGraph p"
  proof (cases "directedEdgeToFaceGraph_cache p")
    case None
    then show ?thesis by (simp add: st t)
  next
    case (Some c)
    then have "c = directedEdgeToFaceGraph p" using assms by (simp add: caches_valid_def)
    then show ?thesis by (simp add: st Some)
  qed
  show "same_mesh p (snd (directedEdgeToFaceGraph_st p))"
    using sm2 by (cases "directedEdgeToFaceGraph_cache p") (simp_all add: st same_mesh_refl)
  show "caches_valid (snd (directedEdgeToFaceGraph_st p))"
    using v2 assms by (cases "directedEdgeToFaceGraph_cache p") (simp_all add: st)
qed

lemma edgeFaces_st_props:
  assumes "caches_valid p"
  shows "fst (edgeFaces_st p e) = edgeFaces p e"
    and "same_mesh p (snd (edgeFaces_st p e))"
    and "caches_valid (snd (edgeFaces_st p e))"
proof -
  obtain t p1 where d: "directedEdgeToFaceGraph_st p = (t, p1)" by (cases "directedEdgeToFaceGraph_st p")
  note props = directedEdgeToFaceGraph_st_props[OF assms, unfolded d fst_conv snd_conv]
  show "fst (edgeFaces_st p e) = edgeFaces p e"
    by (cases e) (simp add: edgeFaces_st_def edgeFaces_def d props(1) Let_def)
  show "same_mesh p (snd (edgeFaces_st p e))"
    using props(2) by (simp add: edgeFaces_st_def d)
  show "caches_valid (snd (edgeFaces_st p e))"
    using props(3) by (simp add: edgeFaces_st_def d)
qed

lemma faceGraph_loop_st_props:
  assumes "caches_valid p"
  shows "fst (faceGraph_loop_st p es g) = faceGraph_loop p es g \<and>
         same_mesh p (snd (faceGraph_loop_st p es g)) \<and>
         caches_valid (snd (faceGraph_loop_st p es g))"
  using assms
proof (induction es arbitrary: p g)
  case Nil
  then show ?case by (simp add: same_mesh_refl)
next
  case (Cons e es)
  obtain r p1 where ef: "edgeFaces_st p e = (r, p1)" by (cases "edgeFaces_st p e")
  note props = edgeFaces_st_props[OF Cons.prems, of e, unfolded ef fst_conv snd_conv]
  have ep: "edgeFaces p e = r" using props(1) by simp
  have sm: "same_mesh p p1" by (rule props(2))
  have cv: "caches_valid p1" by (rule props(3))
  have f: "faces p = faces p1" using sm by (simp add: same_mesh_def)
  show ?case
  proof (cases r)
    case (Inl err)
    have "faceGraph_loop_st p (e # es) g = (Inl err, p1)" by (simp add: ef Inl)
    moreover have "faceGraph_loop p (e # es) g = Inl err" by (simp add: ep Inl)
    ultimately show ?thesis using sm cv by simp
  next
    case (Inr fs)
    obtain o1 o2 where fs: "fs = (o1, o2)" by (cases fs)
    show ?thesis
    proof (cases "\<exists>f1 f2. o1 = Some f1 \<and> o2 = Some f2")
      case True
      then obtain f1 f2 where o: "o1 = Some f1" "o2 = Some f2" by blast
      let ?g = "graph_push (graph_push g f1 f2) f2 f1"
      note ih = Cons.IH[OF cv, of ?g]
      have "faceGraph_loop p (e # es) g = faceGraph_loop p1 es ?g"
        by (simp add: ep Inr fs o faceGraph_loop_faces[OF f])
      moreover have "faceGraph_loop_st p (e # es) g = faceGraph_loop_st p1 es ?g"
        by (simp add: ef Inr fs o)
      moreover have "same_mesh p (snd (faceGraph_loop_st p1 es ?g))"
        using sm ih by (blast intro: same_mesh_trans)
      ultimately show ?thesis using ih by simp
    next
      case False
      then have "faceGraph_loop_st p (e # es) g = (Inl TypeError, p1)"
        by (cases o1; cases o2) (simp_all add: ef Inr fs)
      moreover have "faceGraph_loop p (e # es) g = Inl TypeError"
        using False by (cases o1; cases o2) (simp_all add: ep Inr fs)
      ultimately show ?thesis using sm cv by simp
    qed
  qed
qed


lemma caches_valid_faceGraph_update:
  assumes "caches_valid p" "faceGraph p = Inr g"
  shows "caches_valid (p\<lparr> faceGraph_cache := Some g \<rparr>)"
proof -
  define p' where "p' = p\<lparr> faceGraph_cache := Some g \<rparr>"
  have sm: "same_mesh p p'" unfolding p'_def by (rule same_mesh_update[OF same_mesh_refl])
  have f: "faces p' = faces p" using sm by (simp add: same_mesh_def)
  have t: "directedEdgeToFaceGraph p' = directedEdgeToFaceGraph p"
    by (rule directedEdgeToFaceGraph_faces[OF f])
  have fg: "faceGraph p' = Inr g"
    using faceGraph_same_mesh[OF sm] assms(2) by simp
  have c: "directedEdgeToFaceGraph_cache p' = directedEdgeToFaceGraph_cache p" "faceGraph_cache p' = Some g"
    unfolding p'_def by simp_all
  show ?thesis
    using assms(1) unfolding p'_def[symmetric] caches_valid_def c t fg by simp
qed

lemma faceGraph_st_props:
  assumes "caches_valid p"
  shows "fst (faceGraph_st p) = faceGraph p"
    and "same_mesh p (snd (faceGraph_st p))"
    and "caches_valid (snd (faceGraph_st p))"
proof -
  define p1 where "p1 = snd (edges_st p)"
  obtain r p2 where l: "faceGraph_loop_st p1 (edges p) Map.empty = (r, p2)"
    by (cases "faceGraph_loop_st p1 (edges p) Map.empty")
  have sm1: "same_mesh p p1" unfolding p1_def by (rule edges_st_props(1))
  have v1: "caches_valid p1" unfolding p1_def using assms by (simp only: caches_valid_edges_st)
  have f1: "faces p1 = faces p" using sm1 by (simp add: same_mesh_def)
  note lp = faceGraph_loop_st_props[OF v1, of "edges p" Map.empty, unfolded l fst_conv snd_conv]
  have r: "r = faceGraph p"
    using lp by (simp add: faceGraph_def faceGraph_loop_faces[OF f1])
  have sm2: "same_mesh p p2" using sm1 lp by (blast intro: same_mesh_trans)
  have v2: "caches_valid p2" using lp by simp
  have fg2: "faceGraph p2 = faceGraph p" by (rule faceGraph_same_mesh[OF same_mesh_sym[OF sm2]])
  have st: "faceGraph_st p =
      (case faceGraph_cache p of
         Some graph \<Rightarrow> (Inr graph, p)
       | None \<Rightarrow> (case r of Inl e \<Rightarrow> (Inl e, p2) | Inr graph \<Rightarrow> (Inr graph, p2\<lparr> faceGraph_cache := Some graph \<rparr>)))"
  proof -
    have es: "edges_st p = (edges p, p1)"
      using edges_st_fst[of p] unfolding p1_def by (cases "edges_st p") simp
    show ?thesis
      by (simp add: faceGraph_st_def es l split: sum.splits option.splits)
  qed
  show "fst (faceGraph_st p) = faceGraph p"
  proof (cases "faceGraph_cache p")
    case None
    then show ?thesis by (simp add: st r[symmetric] split: sum.splits)
  next
    case (Some g)
    then have "faceGraph p = Inr g" using assms by (simp add: caches_valid_def)
    then show ?thesis by (simp add: st Some)
  qed
  show "same_mesh p (snd (faceGraph_st p))"
    using sm2 same_mesh_update(2)[OF sm2]
    by (cases "faceGraph_cache p") (simp_all add: st same_mesh_refl split: sum.splits)
  show "caches_valid (snd (faceGraph_st p))"
  proof (cases "faceGraph_cache p")
    case None
    show ?thesis
    proof (cases r)
      case (Inl e)
      then show ?thesis using v2 by (simp add: st None)
    next
      case (Inr g)
      then have "faceGraph p2 = Inr g" using fg2 r by simp
      then have "caches_valid (p2\<lparr> faceGraph_cache := Some g \<rparr>)"
        by (rule caches_valid_faceGraph_update[OF v2])
      then show ?thesis by (simp add: st None Inr)
    qed
  next
    case (Some g)
    then show ?thesis using assms by (simp add: st)
  qed
qed

lemma faceAdjacencyCounts_st_props:
  assumes "caches_valid p"
  shows "fst (faceAdjacencyCounts_st p fs) =
           sequence (map (\<lambda>face.
                     case face_adjacentFaces p face of
                       Inl e \<Rightarrow> Inl e
                     | Inr adjacent \<Rightarrow>
                         Inr \<lparr> fa_n = numSides p face,
                               fa_adj = mset (map (numSides p) (case adjacent of None \<Rightarrow> [] | Some fs \<Rightarrow> fs)) \<rparr>) fs) \<and>
         same_mesh p (snd (faceAdjacencyCounts_st p fs)) \<and>
         caches_valid (snd (faceAdjacencyCounts_st p fs))"
  using assms
proof (induction fs arbitrary: p)
  case Nil
  then show ?case by (simp add: same_mesh_refl)
next
  case (Cons face fs)
  let ?entry = "\<lambda>p face. case face_adjacentFaces p face of
                       Inl e \<Rightarrow> Inl e
                     | Inr adjacent \<Rightarrow>
                         Inr \<lparr> fa_n = numSides p face,
                               fa_adj = mset (map (numSides p) (case adjacent of None \<Rightarrow> [] | Some fs \<Rightarrow> fs)) \<rparr>"
  obtain r p1 where g: "faceGraph_st p = (r, p1)" by (cases "faceGraph_st p")
  note props = faceGraph_st_props[OF Cons.prems, unfolded g fst_conv snd_conv]
  have r: "faceGraph p = r" using props(1) by simp
  have sm: "same_mesh p p1" by (rule props(2))
  have cv: "caches_valid p1" by (rule props(3))
  have f: "faces p1 = faces p" using sm by (simp add: same_mesh_def)
  have entry: "?entry p1 = ?entry p"
    unfolding face_adjacentFaces_def faceGraph_same_mesh[OF same_mesh_sym[OF sm]] numSides_faces[OF f]
    by (rule refl)
  obtain r' p2 where rest: "faceAdjacencyCounts_st p1 fs = (r', p2)" by (cases "faceAdjacencyCounts_st p1 fs")
  note ih = Cons.IH[OF cv, unfolded rest fst_conv snd_conv entry]
  have ih1: "sequence (map (?entry p) fs) = r'" using ih by simp
  have cv2: "caches_valid p2" using ih by simp
  have sm2: "same_mesh p p2" using sm ih by (blast intro: same_mesh_trans)
  show ?case
  proof (cases r)
    case (Inl e)
    have "faceAdjacencyCounts_st p (face # fs) = (Inl e, p1)" by (simp add: g Inl)
    moreover have "?entry p face = Inl e" by (simp add: face_adjacentFaces_def r Inl)
    ultimately show ?thesis using sm cv by simp
  next
    case (Inr graph)
    have e: "?entry p face = Inr \<lparr> fa_n = numSides p1 face,
         fa_adj = mset (map (numSides p1) (case graph face of None \<Rightarrow> [] | Some fs \<Rightarrow> fs)) \<rparr>"
      by (simp add: face_adjacentFaces_def r Inr numSides_faces[OF f])
    have "faceAdjacencyCounts_st p (face # fs) =
        (case r' of Inl e \<Rightarrow> (Inl e, p2)
         | Inr entries \<Rightarrow> (Inr (\<lparr> fa_n = numSides p1 face,
             fa_adj = mset (map (numSides p1) (case graph face of None \<Rightarrow> [] | Some fs \<Rightarrow> fs)) \<rparr> # entries), p2))"
      by (simp add: g Inr rest Let_def split: sum.splits)
    moreover have "sequence (map (?entry p) (face # fs)) =
        (case r' of Inl e \<Rightarrow> Inl e
         | Inr entries \<Rightarrow> Inr (\<lparr> fa_n = numSides p1 face,
             fa_adj = mset (map (numSides p1) (case graph face of None \<Rightarrow> [] | Some fs \<Rightarrow> fs)) \<rparr> # entries))"
      unfolding list.map e sequence.simps ih1 by (rule refl)
    ultimately show ?thesis using sm2 cv2 by (cases r') simp_all
  qed
qed

lemma faceAdjacencyList_st_props:
  assumes "caches_valid p"
  shows "fst (faceAdjacencyList_st p) = faceAdjacencyList p"
    and "same_mesh p (snd (faceAdjacencyList_st p))"
    and "caches_valid (snd (faceAdjacencyList_st p))"
proof -
  define p1 where "p1 = snd (getFaces_st p)"
  have gs: "getFaces_st p = (getFaces p, p1)" unfolding p1_def getFaces_st_def by simp
  have sm1: "same_mesh p p1" unfolding p1_def by (rule getFaces_st_props(2))
  have v1: "caches_valid p1" unfolding p1_def using assms by (simp only: caches_valid_getFaces_st)
  obtain r p2 where c: "faceAdjacencyCounts_st p1 (getFaces p) = (r, p2)"
    by (cases "faceAdjacencyCounts_st p1 (getFaces p)")
  note props = faceAdjacencyCounts_st_props[OF v1, of "getFaces p", unfolded c fst_conv snd_conv]
  have f: "faces p1 = faces p" using sm1 by (simp add: same_mesh_def)
  have pure: "faceAdjacencyList p1 = (case r of Inl e \<Rightarrow> Inl e | Inr cs \<Rightarrow> Inr (sort_key sort_criteria cs))"
    unfolding faceAdjacencyList_def getFaces_faces[OF f] using props by simp
  have sm2: "same_mesh p p2" using sm1 props by (blast intro: same_mesh_trans)
  have v2: "caches_valid p2" using props by simp
  have st: "faceAdjacencyList_st p =
      (case r of Inl e \<Rightarrow> (Inl e, p2) | Inr cs \<Rightarrow> (Inr (sort_key sort_criteria cs), p2))"
    by (simp add: faceAdjacencyList_st_def gs c split: sum.splits)
  have "fst (faceAdjacencyList_st p) = faceAdjacencyList p1"
    unfolding st pure by (cases r) simp_all
  also have "\<dots> = faceAdjacencyList p"
    by (rule faceAdjacencyList_same_mesh[OF same_mesh_sym[OF sm1]])
  finally show "fst (faceAdjacencyList_st p) = faceAdjacencyList p" .
  show "same_mesh p (snd (faceAdjacencyList_st p))"
    using sm2 unfolding st by (cases r) simp_all
  show "caches_valid (snd (faceAdjacencyList_st p))"
    using v2 unfolding st by (cases r) simp_all
qed

lemma faceAdjacencyList_sorted:
  "faceAdjacencyList p = Inr l \<Longrightarrow> sorted (map sort_criteria l)"
  by (auto simp: faceAdjacencyList_def split: sum.splits)

lemma caches_valid_new: "caches_valid (new_Polyhedron b)"
  by (simp add: caches_valid_def new_Polyhedron_def)

text \<open>
  The caches do not show in \<^verbatim>\<open>faceAdjacencyList()\<close>.  For instances whose caches hold what
  they compute (every new instance, and every instance after any call): the memoized method
  returns the value of \<^const>\<open>faceAdjacencyList\<close>, so two instances with equal snapshots give
  the same result whatever their caches hold; a second call on the same instance, which now
  reads the caches the first call filled, gives the result of the first; the call leaves the
  snapshot as it was; and a fingerprint that is returned is sorted by the fixed criteria.
\<close>

theorem faceAdjacencyList_memoized:
  assumes "caches_valid p" and "caches_valid q" and "toJSON p = toJSON q"
  shows "fst (faceAdjacencyList_st p) = fst (faceAdjacencyList_st q) \<and>
         fst (faceAdjacencyList_st (snd (faceAdjacencyList_st p))) = fst (faceAdjacencyList_st p) \<and>
         toJSON (snd (faceAdjacencyList_st p)) = toJSON p \<and>
         (\<forall>l. fst (faceAdjacencyList_st p) = Inr l \<longrightarrow> sorted (map sort_criteria l))"
proof -
  note pp = faceAdjacencyList_st_props[OF assms(1)]
  note qq = faceAdjacencyList_st_props[OF assms(2)]
  note again = faceAdjacencyList_st_props(1)[OF pp(3)]
  have sm: "same_mesh p q" using assms(3) by (simp only: same_mesh_toJSON)
  have 1: "fst (faceAdjacencyList_st p) = fst (faceAdjacencyList_st q)"
    unfolding pp(1) qq(1) by (rule faceAdjacencyList_same_mesh[OF sm])
  have 2: "fst (faceAdjacencyList_st (snd (faceAdjacencyList_st p))) = fst (faceAdjacencyList_st p)"
    unfolding again pp(1) by (rule faceAdjacencyList_same_mesh[OF same_mesh_sym[OF pp(2)]])
  have 3: "toJSON (snd (faceAdjacencyList_st p)) = toJSON p"
    using pp(2) by (simp only: same_mesh_toJSON[symmetric] same_mesh_sym)
  have 4: "\<forall>l. fst (faceAdjacencyList_st p) = Inr l \<longrightarrow> sorted (map sort_criteria l)"
    unfolding pp(1) by (blast intro: faceAdjacencyList_sorted)
  show ?thesis using 1 2 3 4 by blast
qed

theorem faceAdjacencyList_memoized_tetrahedron:
  "caches_valid tetrahedron \<and>
   caches_valid (fst (withVertices_st tetrahedron (vertices tetrahedron))) \<and>
   toJSON tetrahedron = toJSON (fst (withVertices_st tetrahedron (vertices tetrahedron))) \<and>
   fst (faceAdjacencyList_st tetrahedron)
     = fst (faceAdjacencyList_st (fst (withVertices_st tetrahedron (vertices tetrahedron))))"
proof -
  let ?q = "fst (withVertices_st tetrahedron (vertices tetrahedron))"
  have v: "caches_valid tetrahedron" unfolding tetrahedron_def Polyhedron_of_def by (rule caches_valid_new)
  have w: "caches_valid ?q" unfolding withVertices_st_eq fst_conv by (rule caches_valid_new)
  have j: "toJSON tetrahedron = toJSON ?q"
    by (simp add: toJSON_def toJSON_st_fst withVertices_st_eq new_Polyhedron_def edges_def)
  show ?thesis using faceAdjacencyList_memoized[OF v w j] v w j by blast
qed

end
